theory Spec2Isabelle
  imports Complex_Main
begin

section \<open>Python values and strings\<close>

text \<open>
  The scraper is Python. A \<open>str\<close> is modelled as a \<open>string\<close> whose characters stand for
  the code points below 256; on those, the regular expression class \<open>\d\<close> is the ten
  ASCII digits, \<open>str.isspace\<close> holds for the twelve characters of \<open>py_isspace\<close> and
  \<open>str.lower\<close> moves the ASCII and the Latin-1 capital letters by 32. Values whose
  Python type matters to a caller are kept in \<open>pyval\<close>; an exception is a value of
  \<open>exn\<close>.
\<close>

datatype pyval = PyNone | PyInt int | PyStr string

datatype exn = ZeroDivisionError | TypeError | IndexError | ValueError | OverflowError
  | UnicodeDecodeError | OSError

definition is_digit :: "char \<Rightarrow> bool" where
  "is_digit c = (c \<in> set ''0123456789'')"

definition py_isspace :: "char \<Rightarrow> bool" where
  "py_isspace c = (c \<in> set [CHR 0x09, CHR 0x0A, CHR 0x0B, CHR 0x0C, CHR 0x0D,
       CHR 0x1C, CHR 0x1D, CHR 0x1E, CHR 0x1F, CHR 0x20, CHR 0x85, CHR 0xA0])"

definition strip :: "string \<Rightarrow> string" where
  "strip s = rev (dropWhile py_isspace (rev (dropWhile py_isspace s)))"

definition py_lower :: "char \<Rightarrow> char" where
  "py_lower c = (let n = (of_char c :: nat) in
     if (65 \<le> n \<and> n \<le> 90) \<or> (192 \<le> n \<and> n \<le> 222 \<and> n \<noteq> 215)
     then char_of (n + 32) else c)"

text \<open>\<open>contains sub s\<close> is Python's \<open>sub in s\<close> on strings.\<close>

fun contains :: "string \<Rightarrow> string \<Rightarrow> bool" where
  "contains sub [] = (sub = [])"
| "contains sub (c # cs) = (take (length sub) (c # cs) = sub \<or> contains sub cs)"

text \<open>\<open>str(n)\<close> for an integer.\<close>

fun str_nat :: "nat \<Rightarrow> string" where
  "str_nat n = (if n < 10 then [char_of (48 + n)]
                else str_nat (n div 10) @ [char_of (48 + n mod 10)])"

declare str_nat.simps [simp del]

definition str_int :: "int \<Rightarrow> string" where
  "str_int i = (if i < 0 then CHR ''-'' # str_nat (nat (- i)) else str_nat (nat i))"

text \<open>\<open>sep.join(parts)\<close> and \<open>s.split(sep)\<close> for a one-character separator.\<close>

fun join :: "string \<Rightarrow> string list \<Rightarrow> string" where
  "join sep [] = []"
| "join sep [p] = p"
| "join sep (p # q # ps) = p @ sep @ join sep (q # ps)"

fun split_on :: "char \<Rightarrow> string \<Rightarrow> string list" where
  "split_on sep [] = [[]]"
| "split_on sep (c # cs) =
     (if c = sep then [] # split_on sep cs
      else (case split_on sep cs of [] \<Rightarrow> [[c]] | w # ws \<Rightarrow> (c # w) # ws))"

section \<open>scraper/utils.py\<close>

text \<open>
  \<open>clean_price\<close>: \<open>re.sub(r'[^\d.,]', '', text)\<close> keeps the digits, dots and commas,
  \<open>replace(',', '.')\<close> turns the commas into dots; \<open>None\<close> and the empty string give
  \<open>None\<close>.
\<close>

definition clean_price :: "string option \<Rightarrow> pyval" where
  "clean_price text =
     (case text of
        None \<Rightarrow> PyNone
      | Some t \<Rightarrow>
          if t = [] then PyNone
          else
            let cleaned = filter (\<lambda>c. is_digit c \<or> c = CHR ''.'' \<or> c = CHR '','') t;
                cleaned = map (\<lambda>c. if c = CHR '','' then CHR ''.'' else c) cleaned
            in if cleaned \<noteq> [] then PyStr (strip cleaned) else PyNone)"

text \<open>
  \<open>re.search(r'(\d+[,\d]*)', s)\<close>: the leftmost match starts at the first digit of
  \<open>s\<close> and, both quantifiers being greedy, runs over every following digit and comma.
\<close>

definition re_search_sold :: "string \<Rightarrow> string option" where
  "re_search_sold s =
     (let rest = dropWhile (\<lambda>c. \<not> is_digit c) s
      in if rest = [] then None
         else Some (takeWhile (\<lambda>c. is_digit c \<or> c = CHR '','') rest))"

definition extract_sold_count :: "string option \<Rightarrow> pyval" where
  "extract_sold_count text =
     (case re_search_sold (case text of None \<Rightarrow> [] | Some t \<Rightarrow> t) of
        None \<Rightarrow> PyStr ''0''
      | Some m \<Rightarrow> PyStr (filter (\<lambda>c. c \<noteq> CHR '','') m))"


section \<open>scraper/config.py\<close>

text \<open>
  The timing constants are Python floats. Float arithmetic is not computed here: the
  operations that \<open>calculate_retry_delay\<close> uses are the fields of a record, over a type
  \<open>'f\<close> of float values, and what is proved of the function is proved from the properties
  of the operations that the theorem names. \<open>fpow x n\<close> is \<open>x ** n\<close> for an integer
  \<open>n\<close>, which raises \<open>OverflowError\<close> when the result leaves the float range and
  \<open>ZeroDivisionError\<close> for a zero base with a negative exponent; \<open>fzero\<close> is \<open>0.0\<close>,
  \<open>flt\<close> is \<open><\<close> and \<open>fround2 x\<close> is \<open>round(x, 2)\<close>.
\<close>

record 'f floats =
  fzero :: 'f
  fpow :: "'f \<Rightarrow> int \<Rightarrow> exn + 'f"
  fmul :: "'f \<Rightarrow> 'f \<Rightarrow> 'f"
  fadd :: "'f \<Rightarrow> 'f \<Rightarrow> 'f"
  flt :: "'f \<Rightarrow> 'f \<Rightarrow> bool"
  fround2 :: "'f \<Rightarrow> 'f"

record 'f config =
  MAX_RETRIES :: int
  RETRY_BASE_DELAY :: 'f
  RETRY_BACKOFF_FACTOR :: 'f
  RETRY_JITTER :: 'f
  RETRY_MAX_DELAY :: 'f

text \<open>\<open>min(a, b)\<close> of two values: \<open>b\<close> when \<open>b < a\<close>, else \<open>a\<close>.\<close>

definition py_min :: "'f floats \<Rightarrow> 'f \<Rightarrow> 'f \<Rightarrow> 'f" where
  "py_min F a b = (if flt F b a then b else a)"

text \<open>
  \<open>Config.calculate_retry_delay(attempt)\<close>, with the value \<open>u\<close> that
  \<open>uniform(0, RETRY_JITTER)\<close> draws as an argument. Only the power can raise.
\<close>

definition calculate_retry_delay :: "'f floats \<Rightarrow> 'f config \<Rightarrow> int \<Rightarrow> 'f \<Rightarrow> exn + 'f" where
  "calculate_retry_delay F cfg attempt u =
     (case fpow F (RETRY_BACKOFF_FACTOR cfg) (attempt - 1) of
        Inl e \<Rightarrow> Inl e
      | Inr p \<Rightarrow>
          let delay = fmul F (RETRY_BASE_DELAY cfg) p;
              delay = py_min F (fadd F delay u) (RETRY_MAX_DELAY cfg)
          in Inr (fround2 F delay))"

text \<open>
  An instance for the examples: the arithmetic of the rationals, which is what the float
  operations compute wherever they are exact. The power leaves the float range from
  \<open>2 ^ 1024\<close> on; \<open>round(x, 2)\<close> goes to the nearest hundredth, a tie to the even
  neighbour. \<open>default_config\<close> holds the defaults of config.py.
\<close>

definition exact_pow :: "rat \<Rightarrow> int \<Rightarrow> exn + rat" where
  "exact_pow x n =
     (if 0 \<le> n then (if \<bar>x ^ nat n\<bar> < 2 ^ 1024 then Inr (x ^ nat n) else Inl OverflowError)
      else if x = 0 then Inl ZeroDivisionError
      else Inr (1 / x ^ nat (- n)))"

definition round_half_even :: "rat \<Rightarrow> int" where
  "round_half_even x =
     (let f = \<lfloor>x\<rfloor>; d = x - of_int f
      in if d < 1 / 2 then f
         else if 1 / 2 < d then f + 1
         else if even f then f else f + 1)"

definition py_round2 :: "rat \<Rightarrow> rat" where
  "py_round2 x = of_int (round_half_even (x * 100)) / 100"

definition exact_floats :: "rat floats" where
  "exact_floats = \<lparr>fzero = 0, fpow = exact_pow, fmul = (\<lambda>x y. x * y), fadd = (\<lambda>x y. x + y),
                    flt = (\<lambda>x y. x < y), fround2 = py_round2\<rparr>"

definition default_config :: "rat config" where
  "default_config = \<lparr>MAX_RETRIES = 3, RETRY_BASE_DELAY = 2, RETRY_BACKOFF_FACTOR = 2,
                      RETRY_JITTER = 1, RETRY_MAX_DELAY = 30\<rparr>"

section \<open>scraper/brightdata.py\<close>

text \<open>
  What one \<open>requests.post\<close> does: it raises, or it returns a response with a status code
  and a body.
\<close>

datatype post_result = PostRaises | Response int string

text \<open>The body of the \<open>try\<close> of one attempt: the HTML it returns, if any.\<close>

definition response_html :: "post_result \<Rightarrow> string option" where
  "response_html r =
     (case r of
        PostRaises \<Rightarrow> None
      | Response status_code text \<Rightarrow>
          if status_code = 200 then
            (let html = strip text
             in if html \<noteq> [] \<and> contains ''<html'' (map py_lower html) then Some html
                else None)
          else None)"

text \<open>
  What one call of \<open>fetch_via_brightdata\<close> meets: \<open>post url attempt\<close> is the outcome of the
  request of that attempt, \<open>jitter attempt\<close> the value that \<open>uniform\<close> draws for the delay
  after it, and \<open>time_sleep d\<close> the exception that \<open>time.sleep(d)\<close> raises, if any (a
  negative delay raises \<open>ValueError\<close>).
\<close>

record 'f fetch_env =
  post :: "string \<Rightarrow> int \<Rightarrow> post_result"
  jitter :: "int \<Rightarrow> 'f"
  time_sleep :: "'f \<Rightarrow> exn option"

text \<open>
  Lines 56 to 62, after a failed attempt: before the last attempt the delay is computed and
  slept. They stand outside the \<open>try\<close>, so an exception of theirs leaves the function.
\<close>

definition backoff :: "'f floats \<Rightarrow> 'f config \<Rightarrow> 'f fetch_env \<Rightarrow> int \<Rightarrow> exn option" where
  "backoff F cfg E attempt =
     (if attempt < MAX_RETRIES cfg then
        (case calculate_retry_delay F cfg attempt (jitter E attempt) of
           Inl e \<Rightarrow> Some e
         | Inr delay \<Rightarrow> time_sleep E delay)
      else None)"

text \<open>
  The loop \<open>for attempt in range(1, Config.MAX_RETRIES + 1)\<close>, over the list of the
  attempts still to make; \<open>n\<close> counts the requests posted so far. The result is the
  value returned (\<open>None\<close> at line 64) or the exception raised, with the number of requests.
\<close>

fun fetch_attempts ::
  "'f floats \<Rightarrow> 'f config \<Rightarrow> 'f fetch_env \<Rightarrow> string \<Rightarrow> int list \<Rightarrow> nat \<Rightarrow>
   (exn + string option) \<times> nat" where
  "fetch_attempts F cfg E url [] n = (Inr None, n)"
| "fetch_attempts F cfg E url (attempt # rest) n =
     (case response_html (post E url attempt) of
        Some html \<Rightarrow> (Inr (Some html), Suc n)
      | None \<Rightarrow>
          (case backoff F cfg E attempt of
             Some e \<Rightarrow> (Inl e, Suc n)
           | None \<Rightarrow> fetch_attempts F cfg E url rest (Suc n)))"

definition fetch_via_brightdata ::
  "'f floats \<Rightarrow> 'f config \<Rightarrow> 'f fetch_env \<Rightarrow> string \<Rightarrow> (exn + string option) \<times> nat" where
  "fetch_via_brightdata F cfg E url = fetch_attempts F cfg E url [1..MAX_RETRIES cfg] 0"

section \<open>scraper/aliexpress_scraper.py\<close>

subsection \<open>The records and the external collaborators\<close>

text \<open>
  One item as the page script returns it and as \<open>parse_products_from_page\<close> leaves it:
  a dict with these eight keys, \<open>None\<close> where the script gives \<open>null\<close>.
\<close>

record product =
  product_title :: string
  product_url :: "string option"
  product_id :: "string option"
  price :: "string option"
  amount_sold :: string
  amount_sold_count :: string
  product_rating :: "string option"
  product_thumbnail :: "string option"

text \<open>The six components of \<open>urllib.parse.ParseResult\<close>.\<close>

record parse_result =
  scheme :: string
  netloc :: string
  path :: string
  params :: string
  query :: string
  fragment :: string

text \<open>
  What \<open>json.loads\<close> returns. A number is kept by its value, which is all that truth and
  equality of keys look at; the non-finite floats are left out.
\<close>

datatype json = JNull | JBool bool | JNum rat | JStr string | JArr "json list"
  | JObj "(string \<times> json) list"

text \<open>
  What one call of \<open>scrape_single_page\<close> meets: \<open>fetch_env_of k\<close> is what its call
  number \<open>k\<close> (from 0) of \<open>fetch_via_brightdata\<close> meets; \<open>render attempt html\<close> is
  the list of items that lines 95 to 125 of the attempt produce from the document
  (the debug file, the browser, the scrolling and the page script), \<open>None\<close> when any
  step of them raises; \<open>handler_jitter attempt\<close> is the value that \<open>uniform\<close> draws in
  the handler of the attempt, and \<open>asyncio_sleep d\<close> the exception that
  \<open>await asyncio.sleep(d)\<close> raises, if any.
\<close>

record 'f page_env =
  fetch_env_of :: "nat \<Rightarrow> 'f fetch_env"
  render :: "int \<Rightarrow> string \<Rightarrow> product list option"
  handler_jitter :: "int \<Rightarrow> 'f"
  asyncio_sleep :: "'f \<Rightarrow> exn option"

text \<open>
  What one run meets. \<open>urlparse\<close> raises \<open>ValueError\<close> on some urls; \<open>page_env_of p\<close>
  is what the worker of page \<open>p\<close> meets in \<open>scrape_single_page\<close>; \<open>courtesy_delay p\<close>
  and \<open>append_raises p\<close> are the exceptions, if any, of the worker's \<open>random_delay\<close>
  and of its write to the output file; \<open>browser_launch\<close> is the exception, if any, of
  starting Playwright and launching the browser, \<open>browser_close\<close> that of closing the
  browser and leaving Playwright. \<open>resumes_at p\<close> is the instant of the last step of the
  worker of page \<open>p\<close>: the step that raises, or the step after \<open>scrape_single_page\<close>
  that admits the items, writes them and returns.
\<close>

record 'f world =
  urlparse :: "string \<Rightarrow> exn + parse_result"
  urlunparse :: "parse_result \<Rightarrow> string"
  unquote :: "string \<Rightarrow> string"
  quote_plus :: "string \<Rightarrow> string"
  json_loads :: "string \<Rightarrow> json option"
  json_dumps :: "product \<Rightarrow> string"
  browser_launch :: "exn option"
  browser_close :: "exn option"
  page_env_of :: "int \<Rightarrow> 'f page_env"
  courtesy_delay :: "int \<Rightarrow> exn option"
  append_raises :: "int \<Rightarrow> exn option"
  resumes_at :: "int \<Rightarrow> nat"

subsection \<open>with_page_param\<close>

text \<open>
  \<open>urllib.parse.parse_qsl\<close> with its defaults: the fields are split at \<open>&\<close>, a field at
  its first \<open>=\<close>; an empty field, a field without \<open>=\<close> and a field with an empty value
  are skipped; name and value are decoded by \<open>unquote_plus\<close>.
\<close>

definition unquote_plus :: "'f world \<Rightarrow> string \<Rightarrow> string" where
  "unquote_plus W s = unquote W (map (\<lambda>c. if c = CHR ''+'' then CHR '' '' else c) s)"

definition partition_eq :: "string \<Rightarrow> string \<times> bool \<times> string" where
  "partition_eq s =
     (takeWhile (\<lambda>c. c \<noteq> CHR ''='') s, CHR ''='' \<in> set s,
      drop 1 (dropWhile (\<lambda>c. c \<noteq> CHR ''='') s))"

definition parse_field :: "'f world \<Rightarrow> string \<Rightarrow> (string \<times> string) list" where
  "parse_field W name_value =
     (if name_value \<noteq> [] then
        (case partition_eq name_value of
           (name, has_eq, val) \<Rightarrow>
             if val \<noteq> [] then [(unquote_plus W name, unquote_plus W val)] else [])
      else [])"

definition parse_qsl :: "'f world \<Rightarrow> string \<Rightarrow> (string \<times> string) list" where
  "parse_qsl W qs =
     (if qs = [] then [] else concat (map (parse_field W) (split_on CHR ''&'' qs)))"

text \<open>
  A dict keeps its keys in the order of their first insertion: an association list with
  distinct keys. \<open>dict_append\<close> is the loop body of \<open>parse_qs\<close>, \<open>dict_set\<close> is
  \<open>d[k] = v\<close>.
\<close>

fun dict_append :: "string \<Rightarrow> string \<Rightarrow> (string \<times> string list) list \<Rightarrow> (string \<times> string list) list" where
  "dict_append k v [] = [(k, [v])]"
| "dict_append k v ((k', vs) # d) =
     (if k' = k then (k', vs @ [v]) # d else (k', vs) # dict_append k v d)"

fun dict_set :: "string \<Rightarrow> 'v \<Rightarrow> (string \<times> 'v) list \<Rightarrow> (string \<times> 'v) list" where
  "dict_set k v [] = [(k, v)]"
| "dict_set k v ((k', v') # d) =
     (if k' = k then (k', v) # d else (k', v') # dict_set k v d)"

definition parse_qs :: "'f world \<Rightarrow> string \<Rightarrow> (string \<times> string list) list" where
  "parse_qs W qs = fold (\<lambda>(name, val) d. dict_append name val d) (parse_qsl W qs) []"

text \<open>The comprehension \<open>{k: v[0] for k, v in qs.items()}\<close>; \<open>v[0]\<close> raises on an empty list.\<close>

fun first_values :: "(string \<times> string list) list \<Rightarrow> exn + (string \<times> string) list" where
  "first_values [] = Inr []"
| "first_values ((k, v) # d) =
     (case v of
        [] \<Rightarrow> Inl IndexError
      | x # _ \<Rightarrow> (case first_values d of Inl e \<Rightarrow> Inl e | Inr r \<Rightarrow> Inr ((k, x) # r)))"

definition urlencode :: "'f world \<Rightarrow> (string \<times> string) list \<Rightarrow> string" where
  "urlencode W items = join ''&'' (map (\<lambda>(k, v). quote_plus W k @ ''='' @ quote_plus W v) items)"

definition with_page_param :: "'f world \<Rightarrow> string \<Rightarrow> int \<Rightarrow> exn + string" where
  "with_page_param W url page_num =
     (case urlparse W url of
        Inl e \<Rightarrow> Inl e
      | Inr parsed \<Rightarrow>
          let qs = parse_qs W (query parsed);
              qs = dict_set ''page'' [str_int page_num] qs
          in case first_values qs of
               Inl e \<Rightarrow> Inl e
             | Inr items \<Rightarrow>
                 let new_query = urlencode W items;
                     new_parsed = parsed\<lparr>query := new_query\<rparr>
                 in Inr (urlunparse W new_parsed))"

subsection \<open>scrape_single_page\<close>

text \<open>
  One attempt after the fetch: a missing or empty document, or one without \<open><html\<close>, raises;
  otherwise the browser steps decide.
\<close>

definition page_attempt ::
  "(int \<Rightarrow> string \<Rightarrow> product list option) \<Rightarrow> int \<Rightarrow> string option \<Rightarrow> product list option" where
  "page_attempt rnd attempt html =
     (case html of
        None \<Rightarrow> None
      | Some h \<Rightarrow> if h = [] \<or> \<not> contains ''<html'' h then None else rnd attempt h)"

text \<open>
  The body of the \<open>try\<close> of attempt \<open>attempt\<close>, whose fetch is call number \<open>k\<close>: the
  items it returns (\<open>None\<close> when it raises, an exception of \<open>fetch_via_brightdata\<close>
  included) and the number of requests posted.
\<close>

definition try_body ::
  "'f floats \<Rightarrow> 'f config \<Rightarrow> 'f page_env \<Rightarrow> string \<Rightarrow> int \<Rightarrow> nat \<Rightarrow>
   product list option \<times> nat" where
  "try_body F cfg E url attempt k =
     (case fetch_via_brightdata F cfg (fetch_env_of E k) url of
        (r, n) \<Rightarrow>
          ((case r of Inl e \<Rightarrow> None | Inr html \<Rightarrow> page_attempt (render E) attempt html), n))"

text \<open>
  The handler (lines 130 to 140): the delay is computed first, whatever the attempt; then
  the handler sleeps and the loop goes on, or, at the last attempt, returns \<open>[]\<close>. An
  exception raised in the handler leaves \<open>scrape_single_page\<close>.
\<close>

datatype handler_result = Raises exn | Retry | GiveUp

definition handler ::
  "'f floats \<Rightarrow> 'f config \<Rightarrow> 'f page_env \<Rightarrow> int \<Rightarrow> int \<Rightarrow> handler_result" where
  "handler F cfg E retries attempt =
     (case calculate_retry_delay F cfg attempt (handler_jitter E attempt) of
        Inl e \<Rightarrow> Raises e
      | Inr delay \<Rightarrow>
          if attempt < retries
          then (case asyncio_sleep E delay of Some e \<Rightarrow> Raises e | None \<Rightarrow> Retry)
          else GiveUp)"

text \<open>
  The three ways to return from \<open>scrape_single_page\<close>: \<open>return products\<close> (line 128),
  \<open>return []\<close> (line 140), and the end of the loop, where Python returns \<open>None\<close>.
\<close>

datatype sp_exit = Parsed "product list" | Exhausted | NoAttempt

fun py_return :: "sp_exit \<Rightarrow> product list option" where
  "py_return (Parsed products) = Some products"
| "py_return Exhausted = Some []"
| "py_return NoAttempt = None"

text \<open>The traffic of one invocation: requests posted, and calls of \<open>fetch_via_brightdata\<close>.\<close>

record net =
  posts :: nat
  fetches :: nat

text \<open>The loop \<open>for attempt in range(1, retries + 1)\<close>.\<close>

fun scrape_attempts ::
  "'f floats \<Rightarrow> 'f config \<Rightarrow> 'f page_env \<Rightarrow> string \<Rightarrow> int \<Rightarrow> int list \<Rightarrow> net \<Rightarrow>
   (exn + sp_exit) \<times> net" where
  "scrape_attempts F cfg E url retries [] s = (Inr NoAttempt, s)"
| "scrape_attempts F cfg E url retries (attempt # rest) s =
     (case try_body F cfg E url attempt (fetches s) of
        (res, n) \<Rightarrow>
          (case res of
             Some products \<Rightarrow>
               (Inr (Parsed products), \<lparr>posts = posts s + n, fetches = Suc (fetches s)\<rparr>)
           | None \<Rightarrow>
               (case handler F cfg E retries attempt of
                  Raises e \<Rightarrow> (Inl e, \<lparr>posts = posts s + n, fetches = Suc (fetches s)\<rparr>)
                | Retry \<Rightarrow>
                    scrape_attempts F cfg E url retries rest
                      \<lparr>posts = posts s + n, fetches = Suc (fetches s)\<rparr>
                | GiveUp \<Rightarrow>
                    (Inr Exhausted, \<lparr>posts = posts s + n, fetches = Suc (fetches s)\<rparr>))))"

definition scrape_single_page ::
  "'f floats \<Rightarrow> 'f config \<Rightarrow> 'f page_env \<Rightarrow> string \<Rightarrow> int \<Rightarrow> net \<Rightarrow>
   (exn + product list option) \<times> net" where
  "scrape_single_page F cfg E url retries s =
     (case scrape_attempts F cfg E url retries [1..retries] s of
        (r, s') \<Rightarrow> ((case r of Inl e \<Rightarrow> Inl e | Inr ex \<Rightarrow> Inr (py_return ex)), s'))"

subsection \<open>scrape_pages\<close>

text \<open>
  The elements of \<open>seen_urls\<close>. Python compares \<open>True\<close> with 1 and a float with the integer
  of its value as equal, so a number is kept by its value.
\<close>

datatype key = KNone | KNum rat | KStr string

fun truthy :: "json \<Rightarrow> bool" where
  "truthy JNull = False"
| "truthy (JBool b) = b"
| "truthy (JNum r) = (r \<noteq> 0)"
| "truthy (JStr s) = (s \<noteq> [])"
| "truthy (JArr xs) = (xs \<noteq> [])"
| "truthy (JObj kvs) = (kvs \<noteq> [])"

text \<open>\<open>hash_key v\<close> is the element that \<open>seen_urls.add(v)\<close> adds; a list or a dict is unhashable.\<close>

fun hash_key :: "json \<Rightarrow> key option" where
  "hash_key JNull = Some KNone"
| "hash_key (JBool b) = Some (KNum (if b then 1 else 0))"
| "hash_key (JNum r) = Some (KNum r)"
| "hash_key (JStr s) = Some (KStr s)"
| "hash_key (JArr xs) = None"
| "hash_key (JObj kvs) = None"

text \<open>
  The inner \<open>try\<close> of the loading loop, for one line: the key it adds, \<open>None\<close> when it adds
  nothing (\<open>json.loads\<close> raises, the value is not a dict, \<open>product_url\<close> is missing or
  false, or it cannot be hashed).
\<close>

definition line_key :: "'f world \<Rightarrow> string \<Rightarrow> key option" where
  "line_key W line =
     (case json_loads W (strip line) of
        None \<Rightarrow> None
      | Some obj \<Rightarrow>
          (case obj of
             JObj kvs \<Rightarrow>
               (case map_of kvs ''product_url'' of
                  None \<Rightarrow> None
                | Some v \<Rightarrow> if truthy v then hash_key v else None)
           | _ \<Rightarrow> None))"

text \<open>
  The specification's words for the lines of the sink: a well-formed line holds a
  committed record, a JSON object whose \<open>product_url\<close> is a non-empty string, and
  \<open>record_url\<close> is that url; a malformed line is one that \<open>json.loads\<close> rejects.
\<close>

definition record_url :: "'f world \<Rightarrow> string \<Rightarrow> string option" where
  "record_url W line =
     (case json_loads W (strip line) of
        Some (JObj kvs) \<Rightarrow>
          (case map_of kvs ''product_url'' of
             Some (JStr u) \<Rightarrow> if u \<noteq> [] then Some u else None
           | _ \<Rightarrow> None)
      | _ \<Rightarrow> None)"

definition malformed :: "'f world \<Rightarrow> string \<Rightarrow> bool" where
  "malformed W line = (json_loads W (strip line) = None)"

definition load_line :: "'f world \<Rightarrow> string \<Rightarrow> key set \<Rightarrow> key set" where
  "load_line W line seen = (case line_key W line of None \<Rightarrow> seen | Some k \<Rightarrow> insert k seen)"

text \<open>
  What reading the output file gives: the file does not exist; or opening it, or decoding
  it while the loop \<open>for line in fh\<close> reads it, raises another exception; or it is
  read to its end as a list of lines.
\<close>

datatype sink = NoFile | ReadRaises exn | FileLines "string list"

text \<open>
  Lines 153 to 164. Only \<open>FileNotFoundError\<close> is caught around the loop, so any other
  exception of the reading ends the run.
\<close>

definition load_seen_urls :: "'f world \<Rightarrow> sink \<Rightarrow> exn + key set" where
  "load_seen_urls W output_file =
     (case output_file of
        NoFile \<Rightarrow> Inr {}
      | ReadRaises e \<Rightarrow> Inl e
      | FileLines file_lines \<Rightarrow> Inr (fold (load_line W) file_lines {}))"

text \<open>
  Lines 175 to 181 of the worker: the items with a non-empty \<open>product_url\<close> that is not in
  \<open>seen_urls\<close>, every one tested against the set as it is before the first of them is added.
\<close>

definition is_new :: "key set \<Rightarrow> product \<Rightarrow> bool" where
  "is_new seen item =
     (case product_url item of None \<Rightarrow> False | Some u \<Rightarrow> u \<noteq> [] \<and> KStr u \<notin> seen)"

definition add_url :: "product \<Rightarrow> key set \<Rightarrow> key set" where
  "add_url it seen =
     (case product_url it of None \<Rightarrow> insert KNone seen | Some u \<Rightarrow> insert (KStr u) seen)"

definition admit :: "key set \<Rightarrow> product list \<Rightarrow> product list \<times> key set" where
  "admit seen products =
     (let new_items = filter (is_new seen) products
      in (new_items, fold add_url new_items seen))"

text \<open>The state that the workers share: the set, and the lines of the output file.\<close>

record run_state =
  seen_urls :: "key set"
  out_lines :: "string list"

text \<open>
  One worker. Between the return of \<open>scrape_single_page\<close> and the worker's own return
  there is no \<open>await\<close>: the admission and the write are one step of the event loop.
\<close>

definition worker ::
  "'f floats \<Rightarrow> 'f config \<Rightarrow> 'f world \<Rightarrow> string \<Rightarrow> int \<Rightarrow> run_state \<Rightarrow> exn + (nat \<times> run_state)" where
  "worker F cfg W start_url page_num st =
     (case with_page_param W start_url page_num of
        Inl e \<Rightarrow> Inl e
      | Inr page_url \<Rightarrow>
          (case courtesy_delay W page_num of
             Some e \<Rightarrow> Inl e
           | None \<Rightarrow>
               (case fst (scrape_single_page F cfg (page_env_of W page_num) page_url
                            (MAX_RETRIES cfg)
                            \<lparr>posts = 0, fetches = 0\<rparr>) of
                  Inl e \<Rightarrow> Inl e
                | Inr None \<Rightarrow> Inl TypeError
                | Inr (Some products) \<Rightarrow>
                    (case admit (seen_urls st) products of
                       (new_items, seen) \<Rightarrow>
                         if new_items \<noteq> [] then
                           (case append_raises W page_num of
                              Some e \<Rightarrow> Inl e
                            | None \<Rightarrow>
                                Inr (length new_items,
                                     \<lparr>seen_urls = seen,
                                      out_lines = out_lines st
                                        @ map (\<lambda>it. json_dumps W it @ [CHR 0x0A]) new_items\<rparr>))
                         else Inr (length new_items,
                                   \<lparr>seen_urls = seen, out_lines = out_lines st\<rparr>)))))"

text \<open>
  \<open>tqdm_asyncio.gather\<close> awaits the workers in the order in which they complete, and the
  first exception it meets leaves it. The last steps of the workers happen one at a time, in
  the order of \<open>resumes_at\<close>.
\<close>

fun gather ::
  "'f floats \<Rightarrow> 'f config \<Rightarrow> 'f world \<Rightarrow> string \<Rightarrow> int list \<Rightarrow> run_state \<Rightarrow>
   exn + (nat list \<times> run_state)" where
  "gather F cfg W start_url [] st = Inr ([], st)"
| "gather F cfg W start_url (page_num # rest) st =
     (case worker F cfg W start_url page_num st of
        Inl e \<Rightarrow> Inl e
      | Inr (r, st') \<Rightarrow>
          (case gather F cfg W start_url rest st' of
             Inl e \<Rightarrow> Inl e
           | Inr (results, st'') \<Rightarrow> Inr (r # results, st'')))"

definition schedule :: "'f world \<Rightarrow> int \<Rightarrow> int list" where
  "schedule W pages = sort_key (resumes_at W) [1..pages]"

text \<open>
  \<open>scrape_pages\<close> returns \<open>total_new\<close>; the model returns the lines of the output file
  with it, and \<open>None\<close> when the call never returns. \<open>asyncio.Semaphore\<close> refuses a
  negative limit. With a limit of 0 no worker passes \<open>async with semaphore\<close>: a worker ends
  only by the exception of \<open>with_page_param\<close>, which is called before, and otherwise the
  workers wait for ever. With a limit of at least 1 every worker runs, and the limit only bounds
  how many of them are in flight.
\<close>

definition scrape_pages ::
  "'f floats \<Rightarrow> 'f config \<Rightarrow> 'f world \<Rightarrow> string \<Rightarrow> int \<Rightarrow> int \<Rightarrow> sink \<Rightarrow>
   (exn + (nat \<times> string list)) option" where
  "scrape_pages F cfg W start_url pages concurrency output_file =
     (if concurrency < 0 then Some (Inl ValueError)
      else
        (case load_seen_urls W output_file of
           Inl e \<Rightarrow> Some (Inl e)
         | Inr seen \<Rightarrow>
             (case browser_launch W of
                Some e \<Rightarrow> Some (Inl e)
              | None \<Rightarrow>
                  if concurrency = 0 \<and> 1 \<le> pages then
                    (case with_page_param W start_url 1 of
                       Inl e \<Rightarrow> Some (Inl e)
                     | Inr page_url \<Rightarrow> None)
                  else
                    (case gather F cfg W start_url (schedule W pages)
                            \<lparr>seen_urls = seen,
                             out_lines = (case output_file of FileLines ls \<Rightarrow> ls | _ \<Rightarrow> [])\<rparr> of
                       Inl e \<Rightarrow> Some (Inl e)
                     | Inr (results, st) \<Rightarrow>
                         (case browser_close W of
                            Some e \<Rightarrow> Some (Inl e)
                          | None \<Rightarrow> Some (Inr (sum_list results, out_lines st)))))))"

subsection \<open>The specification's words for the pipeline of a page\<close>

text \<open>
  The pipeline of page \<open>p\<close> fails all its attempts: the body of the \<open>try\<close> of every
  attempt of \<open>scrape_single_page\<close> raises (attempt \<open>j\<close> makes call number \<open>j - 1\<close> of
  \<open>fetch_via_brightdata\<close>).
\<close>

definition page_fails :: "'f floats \<Rightarrow> 'f config \<Rightarrow> 'f world \<Rightarrow> string \<Rightarrow> int \<Rightarrow> bool" where
  "page_fails F cfg W start_url p =
     (case with_page_param W start_url p of
        Inl e \<Rightarrow> False
      | Inr page_url \<Rightarrow>
          list_all (\<lambda>j. fst (try_body F cfg (page_env_of W p) page_url j (nat (j - 1))) = None)
            [1..MAX_RETRIES cfg])"

text \<open>
  The steps of the worker of page \<open>p\<close> around the attempts raise nothing: the url of the
  page is built, and the delay before the page, the handlers of the attempts and the write
  to the output file do not raise.
\<close>

definition worker_quiet :: "'f floats \<Rightarrow> 'f config \<Rightarrow> 'f world \<Rightarrow> string \<Rightarrow> int \<Rightarrow> bool" where
  "worker_quiet F cfg W start_url p =
     (case with_page_param W start_url p of
        Inl e \<Rightarrow> False
      | Inr page_url \<Rightarrow>
          courtesy_delay W p = None \<and> append_raises W p = None
          \<and> list_all (\<lambda>j. case handler F cfg (page_env_of W p) (MAX_RETRIES cfg) j of
                              Raises e \<Rightarrow> False
                            | Retry \<Rightarrow> True
                            | GiveUp \<Rightarrow> True)
                [1..MAX_RETRIES cfg])"

subsection \<open>A world for the examples\<close>

text \<open>
  In \<open>quiet_world\<close> a url is parsed as a path without a query, the encodings are the
  identity, \<open>json\<close> parses nothing, nothing raises but \<open>time.sleep\<close> on a negative
  delay, every request of every page fails and the workers are resumed in the order of
  their pages. The examples change the fields they are about.
\<close>

definition quiet_fetch_env :: "rat fetch_env" where
  "quiet_fetch_env = \<lparr>post = (\<lambda>url attempt. PostRaises), jitter = (\<lambda>attempt. 0),
                       time_sleep = (\<lambda>d. if d < 0 then Some ValueError else None)\<rparr>"

definition quiet_page_env :: "rat page_env" where
  "quiet_page_env = \<lparr>fetch_env_of = (\<lambda>k. quiet_fetch_env), render = (\<lambda>attempt html. None),
                      handler_jitter = (\<lambda>attempt. 0), asyncio_sleep = (\<lambda>d. None)\<rparr>"

definition quiet_world :: "rat world" where
  "quiet_world =
     \<lparr>urlparse = (\<lambda>url. Inr \<lparr>scheme = [], netloc = [], path = url, params = [], query = [],
                               fragment = []\<rparr>),
      urlunparse = (\<lambda>p. path p @ (if query p = [] then [] else CHR ''?'' # query p)),
      unquote = (\<lambda>s. s), quote_plus = (\<lambda>s. s),
      json_loads = (\<lambda>s. None), json_dumps = (\<lambda>it. case product_url it of None \<Rightarrow> [] | Some u \<Rightarrow> u),
      browser_launch = None, browser_close = None, page_env_of = (\<lambda>p. quiet_page_env),
      courtesy_delay = (\<lambda>p. None), append_raises = (\<lambda>p. None), resumes_at = (\<lambda>p. nat p)\<rparr>"

text \<open>
  \<open>sink_world\<close> is \<open>quiet_world\<close> with a \<open>json.loads\<close> that parses the two records
  \<open>{"product_url": "a"}\<close> and \<open>{"product_url": "b"}\<close> and rejects every other text.
\<close>

definition sink_world :: "rat world" where
  "sink_world =
     quiet_world
       \<lparr>json_loads :=
          (\<lambda>s. if s = ''{\"product_url\": \"a\"}'' then Some (JObj [(''product_url'', JStr ''a'')])
               else if s = ''{\"product_url\": \"b\"}'' then Some (JObj [(''product_url'', JStr ''b'')])
               else None)\<rparr>"

section \<open>Properties of scraper/utils.py\<close>

lemma strip_no_space: "\<forall>c\<in>set s. \<not> py_isspace c \<Longrightarrow> strip s = s"
proof -
  assume h: "\<forall>c\<in>set s. \<not> py_isspace c"
  have dw: "dropWhile py_isspace xs = xs" if "\<forall>c\<in>set xs. \<not> py_isspace c" for xs
    using that by (cases xs) auto
  have a: "dropWhile py_isspace s = s" using h by (rule dw)
  have b: "dropWhile py_isspace (rev s) = rev s" using h by (intro dw) simp
  show ?thesis by (simp add: strip_def a b)
qed

lemma digit_not_space: "is_digit c \<Longrightarrow> \<not> py_isspace c"
  by (auto simp: is_digit_def py_isspace_def)

text \<open>
  C8. For every raw price candidate (also an absent one), \<open>clean_price\<close> keeps exactly
  the digits, commas and dots of the text, in their order, and writes each comma as a dot;
  when nothing is kept the result is \<open>None\<close>, and it is never the empty string.
\<close>

theorem clean_price_strips:
  "clean_price text =
     (let kept = filter (\<lambda>c. is_digit c \<or> c = CHR ''.'' \<or> c = CHR '','')
                   (case text of None \<Rightarrow> [] | Some t \<Rightarrow> t)
      in if kept = [] then PyNone
         else PyStr (map (\<lambda>c. if c = CHR '','' then CHR ''.'' else c) kept))
   \<and> clean_price text \<noteq> PyStr []"
proof -
  let ?keep = "\<lambda>c. is_digit c \<or> c = CHR ''.'' \<or> c = CHR '',''"
  let ?dot = "\<lambda>c. if c = CHR '','' then CHR ''.'' else c"
  have ns: "\<forall>c\<in>set (map ?dot (filter ?keep t)). \<not> py_isspace c" for t
    by (auto simp: digit_not_space) (auto simp: py_isspace_def)
  have strip_id: "strip (map ?dot (filter ?keep t)) = map ?dot (filter ?keep t)" for t
    by (rule strip_no_space [OF ns])
  show ?thesis
    by (cases "text") (auto simp: clean_price_def Let_def strip_id)
qed

theorem clean_price_strips_witness:
  "clean_price (Some ''US $1,234.50 '') = PyStr ''1.234.50'' \<and> clean_price (Some ''N/A'') = PyNone
   \<and> clean_price (Some ''N/A'') \<noteq> PyStr []"
  using clean_price_strips [of "Some ''US $1,234.50 ''"] clean_price_strips [of "Some ''N/A''"]
  by (simp add: is_digit_def)

text \<open>
  C7, as amended. \<open>extract_sold_count\<close> returns a \<open>str\<close>, never an \<open>int\<close>: a non-empty
  string of decimal digits. When the text holds a digit it is the run of digits and commas
  that starts at the first digit, with the commas removed (leading zeros are kept); when
  the text is absent or holds no digit it is the string \<open>"0"\<close>.
\<close>

theorem extract_sold_count_digits:
  "(\<exists>s. extract_sold_count text = PyStr s \<and> s \<noteq> [] \<and> list_all is_digit s)
   \<and> (let t = (case text of None \<Rightarrow> [] | Some t \<Rightarrow> t)
      in extract_sold_count text =
           (if list_ex is_digit t
            then PyStr (filter (\<lambda>c. c \<noteq> CHR '','')
                   (takeWhile (\<lambda>c. is_digit c \<or> c = CHR '','') (dropWhile (\<lambda>c. \<not> is_digit c) t)))
            else PyStr ''0''))"
proof -
  define t where "t = (case text of None \<Rightarrow> [] | Some t \<Rightarrow> t)"
  define rest where "rest = dropWhile (\<lambda>c. \<not> is_digit c) t"
  define m where "m = takeWhile (\<lambda>c. is_digit c \<or> c = CHR '','') rest"
  have ex: "list_ex is_digit t \<longleftrightarrow> rest \<noteq> []"
    by (auto simp: rest_def list_ex_iff dropWhile_eq_Nil_conv)
  have val: "extract_sold_count text = (if rest = [] then PyStr ''0'' else PyStr (filter (\<lambda>c. c \<noteq> CHR '','') m))"
    unfolding extract_sold_count_def re_search_sold_def Let_def t_def [symmetric]
      rest_def [symmetric] m_def [symmetric] by simp
  have dig: "list_all is_digit (filter (\<lambda>c. c \<noteq> CHR '','') m)"
    by (auto simp: list_all_iff m_def dest: set_takeWhileD)
  have ne: "filter (\<lambda>c. c \<noteq> CHR '','') m \<noteq> []" if "rest \<noteq> []"
  proof -
    from that obtain c cs where r: "rest = c # cs" by (cases rest) auto
    have "\<not> \<not> is_digit (hd rest)"
      using that unfolding rest_def by (rule hd_dropWhile)
    then have "is_digit c" by (simp add: r)
    moreover from this have "c \<noteq> CHR '',''" by (auto simp: is_digit_def)
    ultimately show ?thesis by (simp add: m_def r)
  qed
  have z: "list_all is_digit ''0''" by (simp add: is_digit_def)
  have one: "\<exists>s. extract_sold_count text = PyStr s \<and> s \<noteq> [] \<and> list_all is_digit s"
  proof (cases "rest = []")
    case True
    then show ?thesis using val z by simp
  next
    case False
    then show ?thesis using val dig ne by simp
  qed
  have two: "extract_sold_count text =
           (if list_ex is_digit t
            then PyStr (filter (\<lambda>c. c \<noteq> CHR '','')
                   (takeWhile (\<lambda>c. is_digit c \<or> c = CHR '','') (dropWhile (\<lambda>c. \<not> is_digit c) t)))
            else PyStr ''0'')"
    unfolding ex val by (simp add: m_def rest_def)
  show ?thesis
    unfolding Let_def t_def [symmetric] using one two by blast
qed

theorem extract_sold_count_digits_witness:
  "extract_sold_count (Some ''1,234+ sold 5'') = PyStr ''1234''
   \<and> extract_sold_count (Some ''sold out'') = PyStr ''0''"
  using extract_sold_count_digits [of "Some ''1,234+ sold 5''"] extract_sold_count_digits [of "Some ''sold out''"]
  by (simp add: is_digit_def)

text \<open>
  C7 as stated fails at the absent text: the result is the string \<open>"0"\<close>, which is not the
  integer 0.
\<close>

theorem extract_sold_count_not_int: "extract_sold_count None = PyStr ''0'' \<and> extract_sold_count None \<noteq> PyInt 0"
  by (simp add: extract_sold_count_def re_search_sold_def)

section \<open>Properties of the admission step\<close>

lemma fold_add_url:
  "fold add_url items seen =
     seen \<union> (\<lambda>it. case product_url it of None \<Rightarrow> KNone | Some u \<Rightarrow> KStr u) ` set items"
  by (induction items arbitrary: seen) (auto simp: add_url_def split: option.splits)

lemma admit_items: "fst (admit seen products) = filter (is_new seen) products"
  by (simp add: admit_def Let_def)

lemma admit_skips_seen:
  "KStr u \<in> seen \<Longrightarrow> product_url item = Some u \<Longrightarrow> item \<notin> set (fst (admit seen products))"
  by (simp add: admit_items is_new_def)

lemma admit_url_present:
  "item \<in> set (fst (admit seen products)) \<Longrightarrow>
   \<exists>u. product_url item = Some u \<and> u \<noteq> [] \<and> KStr u \<notin> seen"
  by (auto simp: admit_items is_new_def split: option.splits)

lemma admit_grows: "seen \<subseteq> snd (admit seen products)"
  by (auto simp: admit_def Let_def fold_add_url)

lemma admit_marks:
  "item \<in> set (fst (admit seen products)) \<Longrightarrow> product_url item = Some u \<Longrightarrow>
   KStr u \<in> snd (admit seen products)"
  by (force simp: admit_def Let_def fold_add_url)

text \<open>
  C2 fails inside one call: every item of a page is tested against the index as it was
  before the page, so a url that occurs twice on one page is admitted twice.
\<close>

theorem admit_duplicate_within_page:
  "fst (admit {}
     [\<lparr>product_title = ''Watch'', product_url = Some ''https://www.aliexpress.com/item/1.html'',
       product_id = Some ''1'', price = Some ''9.99'', amount_sold = ''5 sold'',
       amount_sold_count = ''5'', product_rating = None, product_thumbnail = None\<rparr>,
      \<lparr>product_title = ''Watch'', product_url = Some ''https://www.aliexpress.com/item/1.html'',
       product_id = Some ''1'', price = Some ''9.99'', amount_sold = ''5 sold'',
       amount_sold_count = ''5'', product_rating = None, product_thumbnail = None\<rparr>])
   = [\<lparr>product_title = ''Watch'', product_url = Some ''https://www.aliexpress.com/item/1.html'',
       product_id = Some ''1'', price = Some ''9.99'', amount_sold = ''5 sold'',
       amount_sold_count = ''5'', product_rating = None, product_thumbnail = None\<rparr>,
      \<lparr>product_title = ''Watch'', product_url = Some ''https://www.aliexpress.com/item/1.html'',
       product_id = Some ''1'', price = Some ''9.99'', amount_sold = ''5 sold'',
       amount_sold_count = ''5'', product_rating = None, product_thumbnail = None\<rparr>]"
  by (simp add: admit_def is_new_def Let_def)

section \<open>Properties of the two retry loops\<close>

lemma fetch_attempts_count:
  "fetch_attempts F cfg E url as n = (r, n') \<Longrightarrow> n \<le> n' \<and> n' \<le> n + length as"
proof (induction as arbitrary: n)
  case Nil
  then show ?case by simp
next
  case (Cons a as)
  show ?case
  proof (cases "response_html (post E url a)")
    case (Some html)
    with Cons.prems show ?thesis by auto
  next
    case None
    show ?thesis
    proof (cases "backoff F cfg E a")
      case (Some e)
      with None Cons.prems show ?thesis by auto
    next
      case no: None
      with None Cons.prems have "fetch_attempts F cfg E url as (Suc n) = (r, n')" by simp
      from Cons.IH [OF this] show ?thesis by simp
    qed
  qed
qed

lemma fetch_attempts_first_good:
  "a \<le> i \<Longrightarrow> i \<le> m \<Longrightarrow>
   (\<forall>j. a \<le> j \<and> j < i \<longrightarrow> response_html (post E url j) = None \<and> backoff F cfg E j = None) \<Longrightarrow>
   response_html (post E url i) = Some html \<Longrightarrow>
   fetch_attempts F cfg E url [a..m] n = (Inr (Some html), n + nat (i - a) + 1)"
proof (induction "nat (i - a)" arbitrary: a n)
  case 0
  then have a: "a = i" by simp
  have l: "[i..m] = i # [i + 1..m]" using 0 by (simp add: upto_rec1)
  show ?case unfolding a l using 0 by simp
next
  case (Suc d)
  then have lt: "a < i" by simp
  have l: "[a..m] = a # [a + 1..m]" using lt Suc.prems by (simp add: upto_rec1)
  have bad: "response_html (post E url a) = None" "backoff F cfg E a = None"
    using Suc.prems(3) lt by auto
  have d: "d = nat (i - (a + 1))" using Suc.hyps(2) by simp
  have ih: "fetch_attempts F cfg E url [a + 1..m] (Suc n)
              = (Inr (Some html), Suc n + nat (i - (a + 1)) + 1)"
    using Suc.hyps(1) [OF d, of "Suc n"] Suc.prems lt by simp
  have "Suc n + nat (i - (a + 1)) + 1 = n + nat (i - a) + 1" using lt by simp
  with ih show ?case unfolding l by (simp add: bad)
qed

lemma fetch_via_brightdata_count: "snd (fetch_via_brightdata F cfg E url) \<le> nat (MAX_RETRIES cfg)"
proof -
  obtain r n where f: "fetch_attempts F cfg E url [1..MAX_RETRIES cfg] 0 = (r, n)"
    by (cases "fetch_attempts F cfg E url [1..MAX_RETRIES cfg] 0")
  from fetch_attempts_count [OF f] show ?thesis
    by (simp add: fetch_via_brightdata_def f)
qed

lemma try_body_count: "snd (try_body F cfg E url attempt k) \<le> nat (MAX_RETRIES cfg)"
  using fetch_via_brightdata_count [of F cfg "fetch_env_of E k" url]
  by (cases "fetch_via_brightdata F cfg (fetch_env_of E k) url") (simp add: try_body_def)

lemma scrape_attempts_count:
  "scrape_attempts F cfg E url retries as s = (r, s') \<Longrightarrow>
   fetches s' \<le> fetches s + length as \<and> posts s \<le> posts s'
   \<and> posts s' \<le> posts s + length as * nat (MAX_RETRIES cfg)"
proof (induction as arbitrary: s)
  case Nil
  then show ?case by simp
next
  case (Cons a as)
  obtain res n where t: "try_body F cfg E url a (fetches s) = (res, n)"
    by (cases "try_body F cfg E url a (fetches s)")
  have n: "n \<le> nat (MAX_RETRIES cfg)"
    using try_body_count [of F cfg E url a "fetches s"] by (simp add: t)
  let ?s1 = "\<lparr>posts = posts s + n, fetches = Suc (fetches s)\<rparr>"
  show ?case
  proof (cases res)
    case (Some products)
    with Cons.prems t have "s' = ?s1" by simp
    then show ?thesis using n by simp
  next
    case None
    show ?thesis
    proof (cases "handler F cfg E retries a")
      case (Raises e)
      with Cons.prems t None have "s' = ?s1" by simp
      then show ?thesis using n by simp
    next
      case Retry
      with Cons.prems t None
      have "scrape_attempts F cfg E url retries as ?s1 = (r, s')" by simp
      from Cons.IH [OF this] show ?thesis using n by simp
    next
      case GiveUp
      with Cons.prems t None have "s' = ?s1" by simp
      then show ?thesis using n by simp
    qed
  qed
qed

lemma handler_last: "retries \<le> attempt \<Longrightarrow> handler F cfg E retries attempt \<noteq> Retry"
  by (simp add: handler_def split: sum.splits)

lemma handler_before: "attempt < retries \<Longrightarrow> handler F cfg E retries attempt \<noteq> GiveUp"
  by (simp add: handler_def split: sum.splits option.splits)

lemma scrape_attempts_first_good:
  "a \<le> k \<Longrightarrow> k \<le> retries \<Longrightarrow>
   (\<forall>j. a \<le> j \<and> j < k \<longrightarrow>
        fst (try_body F cfg E url j (fetches s + nat (j - a))) = None
        \<and> handler F cfg E retries j = Retry) \<Longrightarrow>
   fst (try_body F cfg E url k (fetches s + nat (k - a))) = Some products \<Longrightarrow>
   fst (scrape_attempts F cfg E url retries [a..retries] s) = Inr (Parsed products)
   \<and> fetches (snd (scrape_attempts F cfg E url retries [a..retries] s))
       = fetches s + nat (k - a) + 1"
proof (induction "nat (k - a)" arbitrary: a s)
  case 0
  then have a: "a = k" by simp
  have l: "[k..retries] = k # [k + 1..retries]" using 0 by (simp add: upto_rec1)
  obtain res n where t: "try_body F cfg E url k (fetches s) = (res, n)"
    by (cases "try_body F cfg E url k (fetches s)")
  from 0(5) have "res = Some products" by (simp add: a t)
  then show ?case unfolding a l by (simp add: t)
next
  case (Suc d)
  then have lt: "a < k" by simp
  have l: "[a..retries] = a # [a + 1..retries]" using lt Suc.prems by (simp add: upto_rec1)
  obtain res n where t: "try_body F cfg E url a (fetches s) = (res, n)"
    by (cases "try_body F cfg E url a (fetches s)")
  have bad: "res = None" "handler F cfg E retries a = Retry"
    using Suc.prems(3) [rule_format, of a] lt by (simp_all add: t)
  let ?s1 = "\<lparr>posts = posts s + n, fetches = Suc (fetches s)\<rparr>"
  have step: "scrape_attempts F cfg E url retries [a..retries] s
                = scrape_attempts F cfg E url retries [a + 1..retries] ?s1"
    unfolding l by (simp add: t bad)
  have d: "d = nat (k - (a + 1))" using Suc.hyps(2) by simp
  have idx: "fetches ?s1 + nat (j - (a + 1)) = fetches s + nat (j - a)" if "a + 1 \<le> j" for j
  proof -
    have "nat (j - a) = Suc (nat (j - (a + 1)))" using that by simp
    then show ?thesis by simp
  qed
  have prev: "\<forall>j. a + 1 \<le> j \<and> j < k \<longrightarrow>
        fst (try_body F cfg E url j (fetches ?s1 + nat (j - (a + 1)))) = None
        \<and> handler F cfg E retries j = Retry"
  proof (intro allI impI)
    fix j assume j: "a + 1 \<le> j \<and> j < k"
    then have "a \<le> j \<and> j < k" by simp
    from Suc.prems(3) [rule_format, OF this]
    have "fst (try_body F cfg E url j (fetches s + nat (j - a))) = None
        \<and> handler F cfg E retries j = Retry" .
    moreover have "fetches ?s1 + nat (j - (a + 1)) = fetches s + nat (j - a)"
      using idx [of j] j by blast
    ultimately show "fst (try_body F cfg E url j (fetches ?s1 + nat (j - (a + 1)))) = None
        \<and> handler F cfg E retries j = Retry" by (simp only:)
  qed
  have "fetches ?s1 + nat (k - (a + 1)) = fetches s + nat (k - a)"
    using idx [of k] lt by simp
  then have good: "fst (try_body F cfg E url k (fetches ?s1 + nat (k - (a + 1)))) = Some products"
    using Suc.prems(4) by (simp only:)
  have a1: "a + 1 \<le> k" using lt by simp
  from Suc.hyps(1) [OF d a1 Suc.prems(2) prev good]
  have "fst (scrape_attempts F cfg E url retries [a + 1..retries] ?s1) = Inr (Parsed products)
     \<and> fetches (snd (scrape_attempts F cfg E url retries [a + 1..retries] ?s1))
         = fetches ?s1 + nat (k - (a + 1)) + 1" .
  moreover have "fetches ?s1 + nat (k - (a + 1)) + 1 = fetches s + nat (k - a) + 1"
    using idx [of k] lt by simp
  ultimately show ?case unfolding step by simp
qed

lemma scrape_attempts_exit:
  "a \<le> retries \<Longrightarrow>
   fst (scrape_attempts F cfg E url retries [a..retries] s) \<noteq> Inr NoAttempt"
proof (induction "nat (retries - a)" arbitrary: a s)
  case 0
  then have a: "a = retries" by simp
  have l: "[retries..retries] = [retries]" by (simp add: upto_rec1)
  have h: "handler F cfg E retries retries \<noteq> Retry" by (rule handler_last) simp
  show ?case unfolding a l using h
    by (simp split: prod.splits option.splits handler_result.splits)
next
  case (Suc d)
  then have lt: "a < retries" by simp
  have l: "[a..retries] = a # [a + 1..retries]" using lt by (simp add: upto_rec1)
  have ih: "fst (scrape_attempts F cfg E url retries [a + 1..retries] t) \<noteq> Inr NoAttempt" for t
    using Suc.hyps(1) [of "a + 1" t] Suc.hyps(2) lt by simp
  show ?case unfolding l using ih
    by (simp split: prod.splits option.splits handler_result.splits)
qed

lemma scrape_attempts_returns:
  "\<forall>j e. handler F cfg E retries j \<noteq> Raises e \<Longrightarrow>
   \<exists>ex. fst (scrape_attempts F cfg E url retries as s) = Inr ex"
proof (induction as arbitrary: s)
  case Nil
  then show ?case by simp
next
  case (Cons a as)
  obtain res n where t: "try_body F cfg E url a (fetches s) = (res, n)"
    by (cases "try_body F cfg E url a (fetches s)")
  show ?case
  proof (cases res)
    case (Some products)
    then show ?thesis by (simp add: t)
  next
    case None
    show ?thesis
    proof (cases "handler F cfg E retries a")
      case (Raises e)
      with Cons.prems show ?thesis by simp
    next
      case Retry
      with None t Cons.IH [OF Cons.prems] show ?thesis by simp
    next
      case GiveUp
      with None t show ?thesis by simp
    qed
  qed
qed

text \<open>
  C3, as amended. One invocation of \<open>scrape_single_page\<close> calls \<open>fetch_via_brightdata\<close>
  at most \<open>retries\<close> times, and each of these calls posts at most \<open>MAX_RETRIES\<close> requests:
  at most \<open>retries * MAX_RETRIES\<close> requests in all. \<open>fetch_via_brightdata\<close> returns the
  document of the first attempt \<open>i\<close> whose response has status 200 and a stripped body that
  is not empty and holds \<open><html\<close> in any case of letters, having posted exactly \<open>i\<close>
  requests, when no backoff before it raises. \<open>scrape_single_page\<close> returns the items of
  the first attempt \<open>k\<close> whose \<open>try\<close> body succeeds (its document holds \<open><html\<close> as
  written and is rendered and parsed without an error), having fetched exactly \<open>k\<close>
  times, when no handler before it raises.
\<close>

theorem fetch_call_bounds:
  "(case scrape_single_page F cfg E url retries s of
      (r, s') \<Rightarrow>
        fetches s' \<le> fetches s + nat retries \<and> posts s \<le> posts s'
        \<and> posts s' \<le> posts s + nat retries * nat (MAX_RETRIES cfg))
   \<and> snd (fetch_via_brightdata F cfg FE url) \<le> nat (MAX_RETRIES cfg)
   \<and> (\<forall>i html.
        1 \<le> i \<and> i \<le> MAX_RETRIES cfg
        \<and> (\<forall>j. 1 \<le> j \<and> j < i \<longrightarrow>
               response_html (post FE url j) = None \<and> backoff F cfg FE j = None)
        \<and> response_html (post FE url i) = Some html
        \<longrightarrow> fetch_via_brightdata F cfg FE url = (Inr (Some html), nat i))
   \<and> (\<forall>k products.
        1 \<le> k \<and> k \<le> retries
        \<and> (\<forall>j. 1 \<le> j \<and> j < k \<longrightarrow>
               fst (try_body F cfg E url j (fetches s + nat (j - 1))) = None
               \<and> handler F cfg E retries j = Retry)
        \<and> fst (try_body F cfg E url k (fetches s + nat (k - 1))) = Some products
        \<longrightarrow> fst (scrape_single_page F cfg E url retries s) = Inr (Some products)
            \<and> fetches (snd (scrape_single_page F cfg E url retries s)) = fetches s + nat k)"
proof -
  have A: "(case scrape_single_page F cfg E url retries s of
      (r, s') \<Rightarrow>
        fetches s' \<le> fetches s + nat retries \<and> posts s \<le> posts s'
        \<and> posts s' \<le> posts s + nat retries * nat (MAX_RETRIES cfg))"
  proof -
    obtain r s' where e: "scrape_attempts F cfg E url retries [1..retries] s = (r, s')"
      by (cases "scrape_attempts F cfg E url retries [1..retries] s")
    from scrape_attempts_count [OF e] show ?thesis
      by (simp add: scrape_single_page_def e)
  qed
  have B: "snd (fetch_via_brightdata F cfg FE url) \<le> nat (MAX_RETRIES cfg)"
    by (rule fetch_via_brightdata_count)
  have C: "fetch_via_brightdata F cfg FE url = (Inr (Some html), nat i)"
    if "1 \<le> i \<and> i \<le> MAX_RETRIES cfg
        \<and> (\<forall>j. 1 \<le> j \<and> j < i \<longrightarrow>
               response_html (post FE url j) = None \<and> backoff F cfg FE j = None)
        \<and> response_html (post FE url i) = Some html" for i html
  proof -
    from that have h: "1 \<le> i" "i \<le> MAX_RETRIES cfg"
      "\<forall>j. 1 \<le> j \<and> j < i \<longrightarrow> response_html (post FE url j) = None \<and> backoff F cfg FE j = None"
      "response_html (post FE url i) = Some html" by blast+
    have "0 + nat (i - 1) + 1 = nat i" using h(1) by simp
    with fetch_attempts_first_good [OF h, of 0] show ?thesis
      by (simp add: fetch_via_brightdata_def)
  qed
  have D: "fst (scrape_single_page F cfg E url retries s) = Inr (Some products)
            \<and> fetches (snd (scrape_single_page F cfg E url retries s)) = fetches s + nat k"
    if "1 \<le> k \<and> k \<le> retries
        \<and> (\<forall>j. 1 \<le> j \<and> j < k \<longrightarrow>
               fst (try_body F cfg E url j (fetches s + nat (j - 1))) = None
               \<and> handler F cfg E retries j = Retry)
        \<and> fst (try_body F cfg E url k (fetches s + nat (k - 1))) = Some products" for k products
  proof -
    from that have h: "1 \<le> k" "k \<le> retries"
      "\<forall>j. 1 \<le> j \<and> j < k \<longrightarrow>
               fst (try_body F cfg E url j (fetches s + nat (j - 1))) = None
               \<and> handler F cfg E retries j = Retry"
      "fst (try_body F cfg E url k (fetches s + nat (k - 1))) = Some products" by blast+
    have n: "fetches s + nat (k - 1) + 1 = fetches s + nat k" using h(1) by simp
    obtain r s' where e: "scrape_attempts F cfg E url retries [1..retries] s = (r, s')"
      by (cases "scrape_attempts F cfg E url retries [1..retries] s")
    from scrape_attempts_first_good [OF h] n e
    show ?thesis by (simp add: scrape_single_page_def)
  qed
  from A B C D show ?thesis by blast
qed

text \<open>
  C3 as stated fails. With \<open>retries = 3\<close>, \<open>MAX_RETRIES = 3\<close> and a transport that always
  raises, one invocation posts nine requests. And a document that is not empty and holds
  \<open><html\<close>, but on which the browser finds no product link, is fetched again: two fetches
  with \<open>retries = 2\<close>.
\<close>

theorem fetch_call_counterexample:
  "scrape_single_page exact_floats default_config
     \<lparr>fetch_env_of = (\<lambda>k. \<lparr>post = (\<lambda>url attempt. PostRaises), jitter = (\<lambda>attempt. 0),
                             time_sleep = (\<lambda>d. if d < 0 then Some ValueError else None)\<rparr>),
      render = (\<lambda>attempt html. None), handler_jitter = (\<lambda>attempt. 0),
      asyncio_sleep = (\<lambda>d. None)\<rparr>
     ''u'' 3 \<lparr>posts = 0, fetches = 0\<rparr>
   = (Inr (Some []), \<lparr>posts = 9, fetches = 3\<rparr>)
   \<and> \<not> (9::nat) \<le> 3
   \<and> scrape_single_page exact_floats default_config
     \<lparr>fetch_env_of = (\<lambda>k. \<lparr>post = (\<lambda>url attempt. Response 200 ''<html></html>''),
                             jitter = (\<lambda>attempt. 0),
                             time_sleep = (\<lambda>d. if d < 0 then Some ValueError else None)\<rparr>),
      render = (\<lambda>attempt html. None), handler_jitter = (\<lambda>attempt. 0),
      asyncio_sleep = (\<lambda>d. None)\<rparr>
     ''u'' 2 \<lparr>posts = 0, fetches = 0\<rparr>
   = (Inr (Some []), \<lparr>posts = 2, fetches = 2\<rparr>)"
proof -
  let ?sleep = "\<lambda>d :: rat. if d < 0 then Some ValueError else None"
  let ?dead = "\<lparr>post = (\<lambda>(url :: string) (attempt :: int). PostRaises),
                 jitter = (\<lambda>attempt :: int. 0 :: rat), time_sleep = ?sleep\<rparr>"
  let ?bare = "\<lparr>post = (\<lambda>(url :: string) (attempt :: int). Response 200 ''<html></html>''),
                 jitter = (\<lambda>attempt :: int. 0 :: rat), time_sleep = ?sleep\<rparr>"
  let ?E1 = "\<lparr>fetch_env_of = (\<lambda>k :: nat. ?dead),
      render = (\<lambda>(attempt :: int) (html :: string). None :: product list option),
      handler_jitter = (\<lambda>attempt :: int. 0 :: rat),
      asyncio_sleep = (\<lambda>d :: rat. None :: exn option)\<rparr>"
  let ?E2 = "\<lparr>fetch_env_of = (\<lambda>k :: nat. ?bare),
      render = (\<lambda>(attempt :: int) (html :: string). None :: product list option),
      handler_jitter = (\<lambda>attempt :: int. 0 :: rat),
      asyncio_sleep = (\<lambda>d :: rat. None :: exn option)\<rparr>"
  have f1: "fetch_via_brightdata exact_floats default_config ?dead ''u'' = (Inr None, 3)"
    by (simp add: fetch_via_brightdata_def default_config_def upto_rec1 response_html_def backoff_def
      calculate_retry_delay_def exact_floats_def exact_pow_def py_min_def py_round2_def
      round_half_even_def Let_def)
  have doc: "response_html (Response 200 ''<html></html>'') = Some ''<html></html>''"
    by code_simp
  have f2: "fetch_via_brightdata exact_floats default_config ?bare ''u''
              = (Inr (Some ''<html></html>''), 1)"
    by (simp add: fetch_via_brightdata_def default_config_def upto_rec1 doc)
  have t1: "try_body exact_floats default_config ?E1 ''u'' a k = (None, 3)" for a k
    by (simp add: try_body_def f1 page_attempt_def)
  have t2: "try_body exact_floats default_config ?E2 ''u'' a k = (None, 1)" for a k
    by (simp add: try_body_def f2 page_attempt_def)
  have h1: "handler exact_floats default_config ?E1 3 1 = Retry"
    "handler exact_floats default_config ?E1 3 2 = Retry"
    "handler exact_floats default_config ?E1 3 3 = GiveUp"
    by (simp_all add: handler_def fetch_via_brightdata_def default_config_def upto_rec1 response_html_def backoff_def
      calculate_retry_delay_def exact_floats_def exact_pow_def py_min_def py_round2_def
      round_half_even_def Let_def)
  have h2: "handler exact_floats default_config ?E2 2 1 = Retry"
    "handler exact_floats default_config ?E2 2 2 = GiveUp"
    by (simp_all add: handler_def fetch_via_brightdata_def default_config_def upto_rec1 response_html_def backoff_def
      calculate_retry_delay_def exact_floats_def exact_pow_def py_min_def py_round2_def
      round_half_even_def Let_def)
  have a: "scrape_single_page exact_floats default_config ?E1 ''u'' 3 \<lparr>posts = 0, fetches = 0\<rparr>
             = (Inr (Some []), \<lparr>posts = 9, fetches = 3\<rparr>)"
    by (simp add: scrape_single_page_def upto_rec1 t1 h1)
  have b: "scrape_single_page exact_floats default_config ?E2 ''u'' 2 \<lparr>posts = 0, fetches = 0\<rparr>
             = (Inr (Some []), \<lparr>posts = 2, fetches = 2\<rparr>)"
    by (simp add: scrape_single_page_def upto_rec1 t2 h2)
  from a b show ?thesis by simp
qed

theorem fetch_call_bounds_witness:
  "fst (scrape_single_page exact_floats default_config
     \<lparr>fetch_env_of = (\<lambda>k. \<lparr>post = (\<lambda>url attempt.
                                if k = 1 \<and> attempt = 2
                                then Response 200 ''<html><a href=/item/1.html></a></html>''
                                else PostRaises),
                             jitter = (\<lambda>attempt. 0),
                             time_sleep = (\<lambda>d. if d < 0 then Some ValueError else None)\<rparr>),
      render = (\<lambda>attempt html. Some []), handler_jitter = (\<lambda>attempt. 0),
      asyncio_sleep = (\<lambda>d. None)\<rparr>
     ''u'' 3 \<lparr>posts = 0, fetches = 0\<rparr>) = Inr (Some [])
   \<and> fetches (snd (scrape_single_page exact_floats default_config
     \<lparr>fetch_env_of = (\<lambda>k. \<lparr>post = (\<lambda>url attempt.
                                if k = 1 \<and> attempt = 2
                                then Response 200 ''<html><a href=/item/1.html></a></html>''
                                else PostRaises),
                             jitter = (\<lambda>attempt. 0),
                             time_sleep = (\<lambda>d. if d < 0 then Some ValueError else None)\<rparr>),
      render = (\<lambda>attempt html. Some []), handler_jitter = (\<lambda>attempt. 0),
      asyncio_sleep = (\<lambda>d. None)\<rparr>
     ''u'' 3 \<lparr>posts = 0, fetches = 0\<rparr>)) = 0 + nat 2"
proof -
  let ?FE = "\<lambda>k :: nat. \<lparr>post = (\<lambda>(url :: string) (attempt :: int).
                                if k = 1 \<and> attempt = 2
                                then Response 200 ''<html><a href=/item/1.html></a></html>''
                                else PostRaises),
                             jitter = (\<lambda>attempt :: int. 0 :: rat),
                             time_sleep = (\<lambda>d. if d < 0 then Some ValueError else None)\<rparr>"
  let ?E = "\<lparr>fetch_env_of = ?FE,
      render = (\<lambda>(attempt :: int) (html :: string). Some ([] :: product list)),
      handler_jitter = (\<lambda>attempt :: int. 0 :: rat),
      asyncio_sleep = (\<lambda>d :: rat. None :: exn option)\<rparr>"
  have doc: "response_html (Response 200 ''<html><a href=/item/1.html></a></html>'')
               = Some ''<html><a href=/item/1.html></a></html>''"
    by code_simp
  have raised: "response_html PostRaises = None"
    by (simp add: response_html_def)
  have mark: "contains ''<html'' ''<html><a href=/item/1.html></a></html>''"
    by simp
  have f0: "fetch_via_brightdata exact_floats default_config
              \<lparr>post = (\<lambda>(url :: string) (attempt :: int). PostRaises),
               jitter = (\<lambda>attempt :: int. 0 :: rat),
               time_sleep = (\<lambda>d. if d < 0 then Some ValueError else None)\<rparr> ''u''
            = (Inr None, 3)"
    by (simp add: fetch_via_brightdata_def default_config_def upto_rec1 response_html_def backoff_def
      calculate_retry_delay_def exact_floats_def exact_pow_def py_min_def py_round2_def
      round_half_even_def Let_def)
  have f1: "fetch_via_brightdata exact_floats default_config
              \<lparr>post = (\<lambda>(url :: string) (attempt :: int).
                         if attempt = 2
                         then Response 200 ''<html><a href=/item/1.html></a></html>''
                         else PostRaises),
               jitter = (\<lambda>attempt :: int. 0 :: rat),
               time_sleep = (\<lambda>d. if d < 0 then Some ValueError else None)\<rparr> ''u''
              = (Inr (Some ''<html><a href=/item/1.html></a></html>''), 2)"
    by (simp add: doc raised fetch_via_brightdata_def default_config_def upto_rec1 backoff_def
      calculate_retry_delay_def exact_floats_def exact_pow_def py_min_def py_round2_def
      round_half_even_def Let_def)
  have bad: "fst (try_body exact_floats default_config ?E ''u'' 1 (0 + nat (1 - 1))) = None"
    by (simp add: try_body_def f0 page_attempt_def)
  have h: "handler exact_floats default_config ?E 3 1 = Retry"
    by (simp add: handler_def fetch_via_brightdata_def default_config_def upto_rec1 response_html_def backoff_def
      calculate_retry_delay_def exact_floats_def exact_pow_def py_min_def py_round2_def
      round_half_even_def Let_def)
  have good: "fst (try_body exact_floats default_config ?E ''u'' 2 (0 + nat (2 - 1))) = Some []"
    using mark by (simp add: try_body_def f1 page_attempt_def)
  have prev: "\<forall>j. 1 \<le> j \<and> j < 2 \<longrightarrow>
               fst (try_body exact_floats default_config ?E ''u'' j (0 + nat (j - 1))) = None
               \<and> handler exact_floats default_config ?E 3 j = Retry"
  proof (intro allI impI)
    fix j :: int assume "1 \<le> j \<and> j < 2"
    then have "j = 1" by simp
    with bad h show "fst (try_body exact_floats default_config ?E ''u'' j (0 + nat (j - 1))) = None
               \<and> handler exact_floats default_config ?E 3 j = Retry" by simp
  qed
  from fetch_call_bounds [where F = exact_floats and cfg = default_config and E = ?E
      and url = "''u''" and retries = 3 and s = "\<lparr>posts = 0, fetches = 0\<rparr>",
      THEN conjunct2, THEN conjunct2, THEN conjunct2, rule_format, of 2 "[]"]
    prev good
  show ?thesis by simp
qed

text \<open>
  C9. With \<open>retries \<le> 0\<close> the loop body never runs: \<open>scrape_single_page\<close> returns \<open>None\<close>
  and has fetched nothing. With \<open>retries \<ge> 1\<close> it never returns \<open>None\<close>: it returns a
  list, unless the delay computation or the sleep of a handler raises.
\<close>

theorem scrape_single_page_none:
  "(retries \<le> 0 \<longrightarrow> scrape_single_page F cfg E url retries s = (Inr None, s))
   \<and> (1 \<le> retries \<longrightarrow> fst (scrape_single_page F cfg E url retries s) \<noteq> Inr None)
   \<and> (1 \<le> retries \<and> (\<forall>j e. handler F cfg E retries j \<noteq> Raises e)
        \<longrightarrow> (\<exists>products. fst (scrape_single_page F cfg E url retries s) = Inr (Some products)))"
proof -
  obtain r s' where e: "scrape_attempts F cfg E url retries [1..retries] s = (r, s')"
    by (cases "scrape_attempts F cfg E url retries [1..retries] s")
  have a: "scrape_single_page F cfg E url retries s = (Inr None, s)" if "retries \<le> 0"
    using that by (simp add: scrape_single_page_def)
  have b: "fst (scrape_single_page F cfg E url retries s) \<noteq> Inr None" if "1 \<le> retries"
  proof -
    from scrape_attempts_exit [OF that, of F cfg E url s] e have ne: "r \<noteq> Inr NoAttempt" by simp
    show ?thesis
    proof (cases r)
      case (Inl x)
      then show ?thesis by (simp add: scrape_single_page_def e)
    next
      case (Inr ex)
      with ne show ?thesis by (cases ex) (simp_all add: scrape_single_page_def e)
    qed
  qed
  have c: "\<exists>products. fst (scrape_single_page F cfg E url retries s) = Inr (Some products)"
    if "1 \<le> retries" "\<forall>j e. handler F cfg E retries j \<noteq> Raises e"
  proof -
    from scrape_attempts_returns [OF that(2), of url "[1..retries]" s] e
    obtain ex where r: "r = Inr ex" by auto
    from scrape_attempts_exit [OF that(1), of F cfg E url s] e r have "ex \<noteq> NoAttempt" by simp
    then show ?thesis by (cases ex) (simp_all add: scrape_single_page_def e r)
  qed
  from a b c show ?thesis by blast
qed

theorem scrape_single_page_none_witness:
  "scrape_single_page exact_floats default_config
     \<lparr>fetch_env_of = (\<lambda>k. \<lparr>post = (\<lambda>url attempt. PostRaises), jitter = (\<lambda>attempt. 0),
                             time_sleep = (\<lambda>d. if d < 0 then Some ValueError else None)\<rparr>),
      render = (\<lambda>attempt html. None), handler_jitter = (\<lambda>attempt. 0),
      asyncio_sleep = (\<lambda>d. None)\<rparr>
     ''u'' 0 \<lparr>posts = 0, fetches = 0\<rparr>
   = (Inr None, \<lparr>posts = 0, fetches = 0\<rparr>)
   \<and> fst (scrape_single_page exact_floats default_config
     \<lparr>fetch_env_of = (\<lambda>k. \<lparr>post = (\<lambda>url attempt. PostRaises), jitter = (\<lambda>attempt. 0),
                             time_sleep = (\<lambda>d. if d < 0 then Some ValueError else None)\<rparr>),
      render = (\<lambda>attempt html. None), handler_jitter = (\<lambda>attempt. 0),
      asyncio_sleep = (\<lambda>d. None)\<rparr>
     ''u'' 1 \<lparr>posts = 0, fetches = 0\<rparr>) \<noteq> Inr None"
proof -
  let ?E = "\<lparr>fetch_env_of = (\<lambda>k :: nat. \<lparr>post = (\<lambda>(url :: string) (attempt :: int). PostRaises),
                             jitter = (\<lambda>attempt :: int. 0 :: rat),
                             time_sleep = (\<lambda>d. if d < 0 then Some ValueError else None)\<rparr>),
      render = (\<lambda>(attempt :: int) (html :: string). None :: product list option),
      handler_jitter = (\<lambda>attempt :: int. 0 :: rat),
      asyncio_sleep = (\<lambda>d :: rat. None :: exn option)\<rparr>"
  have z: "(0::int) \<le> 0" and o: "(1::int) \<le> 1" by simp_all
  from scrape_single_page_none [where retries = 0 and F = exact_floats and cfg = default_config
      and E = ?E and url = "''u''" and s = "\<lparr>posts = 0, fetches = 0\<rparr>"] z
  have a: "scrape_single_page exact_floats default_config ?E ''u'' 0 \<lparr>posts = 0, fetches = 0\<rparr>
             = (Inr None, \<lparr>posts = 0, fetches = 0\<rparr>)" by blast
  from scrape_single_page_none [where retries = 1 and F = exact_floats and cfg = default_config
      and E = ?E and url = "''u''" and s = "\<lparr>posts = 0, fetches = 0\<rparr>"] o
  have b: "fst (scrape_single_page exact_floats default_config ?E ''u'' 1 \<lparr>posts = 0, fetches = 0\<rparr>)
             \<noteq> Inr None" by blast
  from a b show ?thesis by (rule conjI)
qed

section \<open>Properties of calculate_retry_delay\<close>

lemma round_half_even_near:
  "x - 1 / 2 \<le> of_int (round_half_even x) \<and> of_int (round_half_even x) \<le> x + 1 / 2"
proof -
  have f: "of_int \<lfloor>x\<rfloor> \<le> x" "x < of_int \<lfloor>x\<rfloor> + 1" by linarith+
  consider "x - of_int \<lfloor>x\<rfloor> < 1 / 2" | "1 / 2 < x - of_int \<lfloor>x\<rfloor>"
    | "x - of_int \<lfloor>x\<rfloor> = 1 / 2" by linarith
  then show ?thesis
  proof cases
    case 1
    then have "round_half_even x = \<lfloor>x\<rfloor>" by (simp add: round_half_even_def)
    then have "(of_int (round_half_even x) :: rat) = of_int \<lfloor>x\<rfloor>" by simp
    then show ?thesis using f 1 by linarith
  next
    case 2
    then have "round_half_even x = \<lfloor>x\<rfloor> + 1" by (simp add: round_half_even_def)
    then have "(of_int (round_half_even x) :: rat) = of_int \<lfloor>x\<rfloor> + 1" by simp
    then show ?thesis using f 2 by linarith
  next
    case 3
    then have "round_half_even x = \<lfloor>x\<rfloor> \<or> round_half_even x = \<lfloor>x\<rfloor> + 1"
      by (simp add: round_half_even_def Let_def)
    then have "(of_int (round_half_even x) :: rat) = of_int \<lfloor>x\<rfloor>
        \<or> (of_int (round_half_even x) :: rat) = of_int \<lfloor>x\<rfloor> + 1" by auto
    then show ?thesis using f 3 by linarith
  qed
qed

lemma round_half_even_mono: "x \<le> y \<Longrightarrow> round_half_even x \<le> round_half_even y"
proof (cases "x = y")
  case True
  then show ?thesis by simp
next
  case False
  assume "x \<le> y"
  with False have lt: "x < y" by simp
  have "(of_int (round_half_even x) :: rat) \<le> x + 1 / 2"
    using round_half_even_near [of x] by simp
  also have "\<dots> < y + 1 / 2" using lt by simp
  also have "\<dots> \<le> of_int (round_half_even y) + 1"
    using round_half_even_near [of y] by simp
  finally have "(of_int (round_half_even x) :: rat) < of_int (round_half_even y + 1)" by simp
  then have "round_half_even x < round_half_even y + 1" by (simp only: of_int_less_iff)
  then show ?thesis by simp
qed

lemma py_round2_mono: "x \<le> y \<Longrightarrow> py_round2 x \<le> py_round2 y"
  using round_half_even_mono [of "x * 100" "y * 100"]
  by (simp add: py_round2_def divide_right_mono)

text \<open>
  C5, as amended. Taken from the float operations are only these facts, true of every
  float, infinite or not a number: \<open>round(x, 2)\<close> is monotone, \<open><\<close> is irreflexive, and
  adding a value that is not below \<open>0.0\<close> does not give a smaller value. Then, for every
  attempt and every jitter \<open>u\<close> not below \<open>0.0\<close>: the call raises exactly when the power
  \<open>factor ** (attempt - 1)\<close> raises; otherwise it returns
  \<open>round(min(base * power + u, maxDelay), 2)\<close>, which is not above \<open>round(maxDelay, 2)\<close>
  and, when the cap does not apply, not below \<open>round(base * power, 2)\<close>. The bounds hold
  between the rounded values, not between the unrounded ones.
\<close>

theorem retry_delay_bounds:
  assumes round_mono: "\<forall>x y. \<not> flt F y x \<longrightarrow> \<not> flt F (fround2 F y) (fround2 F x)"
    and irreflexive: "\<forall>x. \<not> flt F x x"
    and add_mono: "\<forall>x v. \<not> flt F v (fzero F) \<longrightarrow> \<not> flt F (fadd F x v) x"
    and jitter: "\<not> flt F u (fzero F)"
  shows "(case fpow F (RETRY_BACKOFF_FACTOR cfg) (attempt - 1) of
           Inl e \<Rightarrow> calculate_retry_delay F cfg attempt u = Inl e
         | Inr p \<Rightarrow>
             (\<exists>d. calculate_retry_delay F cfg attempt u = Inr d
                \<and> d = fround2 F (py_min F (fadd F (fmul F (RETRY_BASE_DELAY cfg) p) u)
                                   (RETRY_MAX_DELAY cfg))
                \<and> \<not> flt F (fround2 F (RETRY_MAX_DELAY cfg)) d
                \<and> (\<not> flt F (RETRY_MAX_DELAY cfg) (fadd F (fmul F (RETRY_BASE_DELAY cfg) p) u)
                     \<longrightarrow> \<not> flt F d (fround2 F (fmul F (RETRY_BASE_DELAY cfg) p)))))"
proof (cases "fpow F (RETRY_BACKOFF_FACTOR cfg) (attempt - 1)")
  case (Inl e)
  then show ?thesis by (simp add: calculate_retry_delay_def)
next
  case (Inr p)
  define raw where "raw = fmul F (RETRY_BASE_DELAY cfg) p"
  define cap where "cap = RETRY_MAX_DELAY cfg"
  define m where "m = py_min F (fadd F raw u) cap"
  have val: "calculate_retry_delay F cfg attempt u = Inr (fround2 F m)"
    by (simp add: calculate_retry_delay_def Inr Let_def m_def raw_def cap_def)
  have below: "\<not> flt F cap m"
    using irreflexive by (simp add: m_def py_min_def)
  have up: "\<not> flt F (fround2 F cap) (fround2 F m)"
    using round_mono below by blast
  have lo: "\<not> flt F (fround2 F m) (fround2 F raw)" if "\<not> flt F cap (fadd F raw u)"
  proof -
    from that have "m = fadd F raw u" by (simp add: m_def py_min_def)
    moreover have "\<not> flt F (fadd F raw u) raw" using add_mono jitter by blast
    ultimately have "\<not> flt F m raw" by simp
    with round_mono show ?thesis by blast
  qed
  show ?thesis
    using val up lo by (simp add: Inr m_def raw_def cap_def)
qed

theorem retry_delay_bounds_witness:
  "\<exists>d. calculate_retry_delay exact_floats default_config 2 (1 / 3) = Inr d
       \<and> \<not> py_round2 30 < d \<and> \<not> d < py_round2 (2 * 2)"
proof -
  have a: "\<forall>x y. \<not> flt exact_floats y x
             \<longrightarrow> \<not> flt exact_floats (fround2 exact_floats y) (fround2 exact_floats x)"
    using py_round2_mono by (simp add: exact_floats_def not_less)
  have b: "\<forall>x. \<not> flt exact_floats x x" by (simp add: exact_floats_def)
  have c: "\<forall>x v. \<not> flt exact_floats v (fzero exact_floats)
             \<longrightarrow> \<not> flt exact_floats (fadd exact_floats x v) x"
    by (simp add: exact_floats_def)
  have d: "\<not> flt exact_floats (1 / 3) (fzero exact_floats)" by (simp add: exact_floats_def)
  have p: "fpow exact_floats (RETRY_BACKOFF_FACTOR default_config) (2 - 1) = Inr 2"
    by (simp add: exact_floats_def default_config_def exact_pow_def)
  from retry_delay_bounds [OF a b c d, of default_config 2]
  show ?thesis
    unfolding p by (simp add: exact_floats_def default_config_def)
qed

text \<open>
  C5 as stated fails on the rounding. With \<open>maxDelay = 0.375\<close>, \<open>base = 1\<close> and jitter 0
  the first delay is \<open>round(0.375, 2) = 0.38\<close>, above the cap; with \<open>base = 0.125\<close> and
  \<open>maxDelay = 30\<close> it is \<open>round(0.125, 2) = 0.12\<close>, below \<open>base * factor ** 0\<close>. All
  the values that enter the two computations are floats, and the operations before the
  rounding are exact on them.
\<close>

theorem retry_delay_rounding_counterexample:
  "calculate_retry_delay exact_floats
     \<lparr>MAX_RETRIES = 3, RETRY_BASE_DELAY = 1, RETRY_BACKOFF_FACTOR = 2,
      RETRY_JITTER = 1, RETRY_MAX_DELAY = 3 / 8\<rparr> 1 0 = Inr (19 / 50)
   \<and> \<not> (19 / 50 :: rat) \<le> 3 / 8
   \<and> calculate_retry_delay exact_floats
     \<lparr>MAX_RETRIES = 3, RETRY_BASE_DELAY = 1 / 8, RETRY_BACKOFF_FACTOR = 2,
      RETRY_JITTER = 1, RETRY_MAX_DELAY = 30\<rparr> 1 0 = Inr (3 / 25)
   \<and> \<not> (1 / 8 * 2 ^ 0 :: rat) \<le> 3 / 25"
  by code_simp

section \<open>Properties of the index of seen urls\<close>

lemma fold_load_line:
  "fold (load_line W) ls seen = seen \<union> set (List.map_filter (line_key W) ls)"
proof (induction ls arbitrary: seen)
  case Nil
  then show ?case by simp
next
  case (Cons l ls)
  have step: "fold (load_line W) (l # ls) seen = fold (load_line W) ls (load_line W l seen)"
    by simp
  show ?case
  proof (cases "line_key W l")
    case None
    then have "load_line W l seen = seen" by (simp add: load_line_def)
    with None show ?thesis unfolding step by (simp add: Cons.IH)
  next
    case (Some k)
    then have "load_line W l seen = insert k seen" by (simp add: load_line_def)
    with Some show ?thesis unfolding step by (simp add: Cons.IH)
  qed
qed

lemma load_seen_urls_keys:
  "load_seen_urls W (FileLines ls) = Inr (set (List.map_filter (line_key W) ls))"
  by (simp add: load_seen_urls_def fold_load_line)

lemma line_key_record_url: "line_key W l = Some (KStr u) \<longleftrightarrow> record_url W l = Some u"
proof (cases "json_loads W (strip l)")
  case None
  then show ?thesis by (simp add: line_key_def record_url_def)
next
  case (Some obj)
  show ?thesis
  proof (cases obj)
    case (JObj kvs)
    show ?thesis
    proof (cases "map_of kvs ''product_url''")
      case None
      with Some JObj show ?thesis by (simp add: line_key_def record_url_def)
    next
      case found: (Some v)
      with Some JObj show ?thesis
        by (cases v) (auto simp: line_key_def record_url_def)
    qed
  qed (simp_all add: line_key_def record_url_def Some)
qed

lemma malformed_line_key: "malformed W l \<Longrightarrow> line_key W l = None"
  by (simp add: malformed_def line_key_def)

lemma map_filter_skip:
  "List.map_filter (line_key W) (filter (\<lambda>l. \<not> malformed W l) ls) = List.map_filter (line_key W) ls"
proof (induction ls)
  case Nil
  then show ?case by simp
next
  case (Cons l ls)
  show ?case
  proof (cases "malformed W l")
    case True
    then show ?thesis using Cons malformed_line_key [OF True] by simp
  next
    case False
    then show ?thesis using Cons by (cases "line_key W l") simp_all
  qed
qed

lemma map_filter_records:
  "\<forall>l\<in>set ls. malformed W l \<or> record_url W l \<noteq> None \<Longrightarrow>
   List.map_filter (line_key W) ls = map KStr (List.map_filter (record_url W) ls)"
proof (induction ls)
  case Nil
  then show ?case by simp
next
  case (Cons l ls)
  then have ih: "List.map_filter (line_key W) ls = map KStr (List.map_filter (record_url W) ls)"
    by simp
  from Cons.prems have "malformed W l \<or> record_url W l \<noteq> None" by simp
  then show ?case
  proof
    assume m: "malformed W l"
    then have "line_key W l = None" by (rule malformed_line_key)
    moreover from m have "record_url W l = None" by (simp add: malformed_def record_url_def)
    ultimately show ?thesis using ih by simp
  next
    assume "record_url W l \<noteq> None"
    then obtain u where u: "record_url W l = Some u" by blast
    then have "line_key W l = Some (KStr u)" by (simp add: line_key_record_url)
    with u show ?thesis using ih by simp
  qed
qed

lemma notin_subset_single: "x \<notin> A \<Longrightarrow> A \<subseteq> {x} \<Longrightarrow> A = {}"
  by auto

lemma set_map_filter: "set (List.map_filter f xs) = {y. \<exists>x\<in>set xs. f x = Some y}"
  by (induction xs) (auto split: option.splits)

text \<open>
  C4, as amended. A sink that does not exist gives the empty index; a sink that exists but
  cannot be opened or decoded ends the run with that exception. A sink that is read to its
  end never makes the loading fail. Its malformed lines, those that \<open>json.loads\<close>
  rejects, change nothing. A url is in the index exactly when a well-formed line carries
  it. When every line is malformed or well-formed, the index is the set of the urls of the
  well-formed lines: at most as many entries as there are well-formed lines, and exactly
  as many when their urls are pairwise distinct. A record whose url is in the index is
  never admitted afterwards.
\<close>

theorem load_seen_urls_index:
  "load_seen_urls W NoFile = Inr {}
   \<and> load_seen_urls W (ReadRaises e) = Inl e
   \<and> (\<exists>index.
        load_seen_urls W (FileLines ls) = Inr index
        \<and> load_seen_urls W (FileLines (filter (\<lambda>l. \<not> malformed W l) ls)) = Inr index
        \<and> (\<forall>u. KStr u \<in> index \<longleftrightarrow> (\<exists>l\<in>set ls. record_url W l = Some u))
        \<and> ((\<forall>l\<in>set ls. malformed W l \<or> record_url W l \<noteq> None)
             \<longrightarrow> index = KStr ` set (List.map_filter (record_url W) ls)
               \<and> card index \<le> length (filter (\<lambda>l. record_url W l \<noteq> None) ls)
               \<and> (distinct (List.map_filter (record_url W) ls)
                    \<longrightarrow> card index = length (filter (\<lambda>l. record_url W l \<noteq> None) ls)))
        \<and> (\<forall>u item products.
              KStr u \<in> index \<and> product_url item = Some u
              \<longrightarrow> item \<notin> set (fst (admit index products))))"
proof -
  define index where "index = set (List.map_filter (line_key W) ls)"
  let ?urls = "List.map_filter (record_url W) ls"
  have a: "load_seen_urls W (FileLines ls) = Inr index"
    by (simp add: load_seen_urls_keys index_def)
  have b: "load_seen_urls W (FileLines (filter (\<lambda>l. \<not> malformed W l) ls)) = Inr index"
    by (simp only: load_seen_urls_keys map_filter_skip index_def)
  have c: "KStr u \<in> index \<longleftrightarrow> (\<exists>l\<in>set ls. record_url W l = Some u)" for u
    by (simp add: index_def set_map_filter line_key_record_url)
  have len: "length ?urls = length (filter (\<lambda>l. record_url W l \<noteq> None) ls)"
    by (simp add: List.map_filter_def)
  have d: "index = KStr ` set ?urls
           \<and> card index \<le> length (filter (\<lambda>l. record_url W l \<noteq> None) ls)
           \<and> (distinct ?urls \<longrightarrow> card index = length (filter (\<lambda>l. record_url W l \<noteq> None) ls))"
    if h: "\<forall>l\<in>set ls. malformed W l \<or> record_url W l \<noteq> None"
  proof -
    have i: "index = set (map KStr ?urls)"
      unfolding index_def using map_filter_records [OF h] by simp
    have "card (set (map KStr ?urls)) \<le> length (map KStr ?urls)" by (rule card_length)
    then have le: "card index \<le> length (filter (\<lambda>l. record_url W l \<noteq> None) ls)"
      unfolding i using len by simp
    have eq: "card index = length (filter (\<lambda>l. record_url W l \<noteq> None) ls)" if "distinct ?urls"
    proof -
      from that have "distinct (map KStr ?urls)" by (simp add: distinct_map inj_on_def)
      then have "card (set (map KStr ?urls)) = length (map KStr ?urls)" by (rule distinct_card)
      then show ?thesis unfolding i using len by simp
    qed
    from i le eq show ?thesis by simp
  qed
  have e: "\<forall>u item products.
              KStr u \<in> index \<and> product_url item = Some u
              \<longrightarrow> item \<notin> set (fst (admit index products))"
    using admit_skips_seen by blast
  have n: "load_seen_urls W NoFile = Inr {}" "load_seen_urls W (ReadRaises e) = Inl e"
    by (simp_all add: load_seen_urls_def)
  have c': "\<forall>u. KStr u \<in> index \<longleftrightarrow> (\<exists>l\<in>set ls. record_url W l = Some u)"
    using c by blast
  have d': "(\<forall>l\<in>set ls. malformed W l \<or> record_url W l \<noteq> None)
             \<longrightarrow> index = KStr ` set (List.map_filter (record_url W) ls)
               \<and> card index \<le> length (filter (\<lambda>l. record_url W l \<noteq> None) ls)
               \<and> (distinct (List.map_filter (record_url W) ls)
                    \<longrightarrow> card index = length (filter (\<lambda>l. record_url W l \<noteq> None) ls))"
    using d by (rule impI)
  show ?thesis
    apply (intro conjI)
      apply (rule n(1))
     apply (rule n(2))
    apply (rule exI [of _ index])
    apply (intro conjI)
        apply (rule a)
       apply (rule b)
      apply (rule c')
     apply (rule d')
    apply (rule e)
    done
qed

theorem load_seen_urls_index_witness:
  "load_seen_urls sink_world
     (FileLines [''{\"product_url\": \"a\"}'' @ [CHR 0x0A], ''not json'' @ [CHR 0x0A],
                 ''{\"product_url\": \"b\"}'' @ [CHR 0x0A]])
     = Inr {KStr ''a'', KStr ''b''}
   \<and> load_seen_urls sink_world
     (FileLines [''{\"product_url\": \"a\"}'' @ [CHR 0x0A], ''{\"product_url\": \"b\"}'' @ [CHR 0x0A]])
     = Inr {KStr ''a'', KStr ''b''}
   \<and> card {KStr ''a'', KStr ''b''} = 2
   \<and> fst (admit {KStr ''a'', KStr ''b''}
        [\<lparr>product_title = ''t'', product_url = Some ''b'', product_id = None, price = None,
          amount_sold = [], amount_sold_count = [], product_rating = None,
          product_thumbnail = None\<rparr>]) = []"
proof -
  let ?a = "''{\"product_url\": \"a\"}'' @ [CHR 0x0A]"
  let ?b = "''{\"product_url\": \"b\"}'' @ [CHR 0x0A]"
  let ?n = "''not json'' @ [CHR 0x0A]"
  let ?ls = "[?a, ?n, ?b]"
  let ?item = "\<lparr>product_title = ''t'', product_url = Some ''b'', product_id = None, price = None,
          amount_sold = [], amount_sold_count = [], product_rating = None,
          product_thumbnail = None\<rparr>"
  have ra: "record_url sink_world ?a = Some ''a''"
    by (simp add: record_url_def sink_world_def strip_def py_isspace_def)
  have rb: "record_url sink_world ?b = Some ''b''"
    by (simp add: record_url_def sink_world_def strip_def py_isspace_def)
  have rn: "record_url sink_world ?n = None"
    by (simp add: record_url_def sink_world_def strip_def py_isspace_def)
  have ma: "\<not> malformed sink_world ?a"
    by (simp add: malformed_def sink_world_def strip_def py_isspace_def)
  have mb: "\<not> malformed sink_world ?b"
    by (simp add: malformed_def sink_world_def strip_def py_isspace_def)
  have mn: "malformed sink_world ?n"
    by (simp add: malformed_def sink_world_def strip_def py_isspace_def)
  have urls: "List.map_filter (record_url sink_world) ?ls = [''a'', ''b'']"
    using ra rb rn by (simp add: List.map_filter_simps)
  have kept: "filter (\<lambda>l. \<not> malformed sink_world l) ?ls = [?a, ?b]"
    using ma mb mn by simp
  have lines: "\<forall>l\<in>set ?ls. malformed sink_world l \<or> record_url sink_world l \<noteq> None"
    using ra rb mn by simp
  from load_seen_urls_index [where W = sink_world and ls = ?ls and e = OSError]
  obtain index where
    i1: "load_seen_urls sink_world (FileLines ?ls) = Inr index" and
    i2: "load_seen_urls sink_world (FileLines (filter (\<lambda>l. \<not> malformed sink_world l) ?ls)) = Inr index" and
    i3: "(\<forall>l\<in>set ?ls. malformed sink_world l \<or> record_url sink_world l \<noteq> None)
         \<longrightarrow> index = KStr ` set (List.map_filter (record_url sink_world) ?ls)
           \<and> card index \<le> length (filter (\<lambda>l. record_url sink_world l \<noteq> None) ?ls)
           \<and> (distinct (List.map_filter (record_url sink_world) ?ls)
                \<longrightarrow> card index = length (filter (\<lambda>l. record_url sink_world l \<noteq> None) ?ls))" and
    i4: "\<forall>u item products. KStr u \<in> index \<and> product_url item = Some u
              \<longrightarrow> item \<notin> set (fst (admit index products))"
    by blast
  from i3 lines have ix: "index = KStr ` set (List.map_filter (record_url sink_world) ?ls)"
    and cd: "distinct (List.map_filter (record_url sink_world) ?ls)
                \<longrightarrow> card index = length (filter (\<lambda>l. record_url sink_world l \<noteq> None) ?ls)"
    by blast+
  have index: "index = {KStr ''a'', KStr ''b''}"
    unfolding ix urls by simp
  have n: "length (filter (\<lambda>l. record_url sink_world l \<noteq> None) ?ls) = 2"
    using ra rb rn by simp
  have c: "card index = 2"
    using cd n unfolding urls by simp
  have "KStr ''b'' \<in> index" by (simp add: index)
  with i4 have "?item \<notin> set (fst (admit index [?item]))"
    by simp
  moreover have "set (fst (admit index [?item])) \<subseteq> {?item}"
    by (simp add: admit_def)
  ultimately have "set (fst (admit index [?item])) = {}" by (rule notin_subset_single)
  then have adm: "fst (admit index [?item]) = []" by simp
  from i1 i2 c adm show ?thesis unfolding kept index by simp
qed

text \<open>
  C4 as stated fails in two ways. When two well-formed lines carry the same url the index
  has fewer entries than there are well-formed lines: the sink below has two well-formed
  lines and one malformed line, and its index has one entry. And a sink that cannot be
  decoded makes the loading fail.
\<close>

theorem load_seen_urls_duplicate_counterexample:
  "List.map_filter (record_url sink_world)
     [''{\"product_url\": \"a\"}'' @ [CHR 0x0A], ''not json'' @ [CHR 0x0A],
      ''{\"product_url\": \"a\"}'' @ [CHR 0x0A]] = [''a'', ''a'']
   \<and> filter (malformed sink_world)
     [''{\"product_url\": \"a\"}'' @ [CHR 0x0A], ''not json'' @ [CHR 0x0A],
      ''{\"product_url\": \"a\"}'' @ [CHR 0x0A]] = [''not json'' @ [CHR 0x0A]]
   \<and> load_seen_urls sink_world
     (FileLines [''{\"product_url\": \"a\"}'' @ [CHR 0x0A], ''not json'' @ [CHR 0x0A],
                 ''{\"product_url\": \"a\"}'' @ [CHR 0x0A]]) = Inr {KStr ''a''}
   \<and> card {KStr ''a''} = 1
   \<and> load_seen_urls sink_world (ReadRaises UnicodeDecodeError) = Inl UnicodeDecodeError"
  by (simp add: load_seen_urls_def load_line_def line_key_def record_url_def malformed_def
      sink_world_def strip_def py_isspace_def List.map_filter_simps)

section \<open>Properties of with_page_param\<close>

lemma dict_append_keys: "set (map fst (dict_append k v d)) = insert k (set (map fst d))"
proof (induction d)
  case Nil
  then show ?case by simp
next
  case (Cons a d)
  obtain k' vs where a: "a = (k', vs)" by (cases a)
  show ?case
  proof (cases "k' = k")
    case True
    then show ?thesis by (simp add: a)
  next
    case False
    then show ?thesis using Cons.IH by (simp add: a insert_commute)
  qed
qed

lemma dict_append_distinct: "distinct (map fst d) \<Longrightarrow> distinct (map fst (dict_append k v d))"
proof (induction d)
  case Nil
  then show ?case by simp
next
  case (Cons a d)
  obtain k' vs where a: "a = (k', vs)" by (cases a)
  from Cons.prems have d: "distinct (map fst d)" and n: "k' \<notin> set (map fst d)"
    by (simp_all add: a)
  show ?case
  proof (cases "k' = k")
    case True
    then show ?thesis using Cons.prems by (simp add: a)
  next
    case False
    have "k' \<notin> set (map fst (dict_append k v d))"
      unfolding dict_append_keys using n False by simp
    then show ?thesis using False Cons.IH [OF d] by (simp add: a)
  qed
qed

lemma dict_append_nonempty:
  "\<forall>vs\<in>set (map snd d). vs \<noteq> [] \<Longrightarrow> \<forall>vs\<in>set (map snd (dict_append k v d)). vs \<noteq> []"
proof (induction d)
  case Nil
  then show ?case by simp
next
  case (Cons a d)
  obtain k' vs where a: "a = (k', vs)" by (cases a)
  from Cons.prems have ne: "vs \<noteq> []" and rest: "\<forall>vs\<in>set (map snd d). vs \<noteq> []"
    by (simp_all add: a)
  show ?case
  proof (cases "k' = k")
    case True
    then show ?thesis using ne rest by (simp add: a)
  next
    case False
    then show ?thesis using ne Cons.IH [OF rest] by (simp add: a)
  qed
qed

lemma dict_append_first:
  "\<forall>vs\<in>set (map snd d). vs \<noteq> [] \<Longrightarrow>
   map_option hd (map_of (dict_append k v d) k') =
     (if k' = k then (case map_of d k of None \<Rightarrow> Some v | Some vs \<Rightarrow> Some (hd vs))
      else map_option hd (map_of d k'))"
proof (induction d)
  case Nil
  then show ?case by simp
next
  case (Cons a d)
  obtain k0 vs where a: "a = (k0, vs)" by (cases a)
  from Cons.prems have ne: "vs \<noteq> []" and rest: "\<forall>vs\<in>set (map snd d). vs \<noteq> []"
    by (simp_all add: a)
  show ?case
  proof (cases "k0 = k")
    case True
    then show ?thesis using ne by (simp add: a)
  next
    case False
    show ?thesis
    proof (cases "k' = k0")
      case True
      with False show ?thesis by (simp add: a)
    next
      case neq: False
      with False show ?thesis using Cons.IH [OF rest] by (simp add: a)
    qed
  qed
qed

lemma fold_dict_append:
  "distinct (map fst d) \<Longrightarrow> \<forall>vs\<in>set (map snd d). vs \<noteq> [] \<Longrightarrow>
   distinct (map fst (fold (\<lambda>(name, val) d. dict_append name val d) ps d))
   \<and> (\<forall>vs\<in>set (map snd (fold (\<lambda>(name, val) d. dict_append name val d) ps d)). vs \<noteq> [])
   \<and> (\<forall>k. map_option hd (map_of (fold (\<lambda>(name, val) d. dict_append name val d) ps d) k) =
          (case map_option hd (map_of d k) of Some x \<Rightarrow> Some x | None \<Rightarrow> map_of ps k))"
proof (induction ps arbitrary: d)
  case Nil
  then show ?case by (simp split: option.splits)
next
  case (Cons p ps)
  obtain k v where p: "p = (k, v)" by (cases p)
  let ?d = "dict_append k v d"
  have dd: "distinct (map fst ?d)" using Cons.prems(1) by (rule dict_append_distinct)
  have ne: "\<forall>vs\<in>set (map snd ?d). vs \<noteq> []" using Cons.prems(2) by (rule dict_append_nonempty)
  note ih = Cons.IH [OF dd ne]
  have first: "map_option hd (map_of ?d k') =
     (if k' = k then (case map_of d k of None \<Rightarrow> Some v | Some vs \<Rightarrow> Some (hd vs))
      else map_option hd (map_of d k'))" for k'
    using Cons.prems(2) by (rule dict_append_first)
  have step: "fold (\<lambda>(name, val) d. dict_append name val d) (p # ps) d
              = fold (\<lambda>(name, val) d. dict_append name val d) ps ?d"
    by (simp add: p)
  have "(case map_option hd (map_of ?d k') of Some x \<Rightarrow> Some x | None \<Rightarrow> map_of ps k')
        = (case map_option hd (map_of d k') of Some x \<Rightarrow> Some x | None \<Rightarrow> map_of (p # ps) k')" for k'
    unfolding first by (simp add: p split: option.splits)
  then show ?case unfolding step using ih by simp
qed

lemma parse_qs_dict:
  "distinct (map fst (parse_qs W qs))
   \<and> (\<forall>vs\<in>set (map snd (parse_qs W qs)). vs \<noteq> [])
   \<and> (\<forall>k. map_option hd (map_of (parse_qs W qs) k) = map_of (parse_qsl W qs) k)"
  unfolding parse_qs_def
  using fold_dict_append [where d = "[]" and ps = "parse_qsl W qs"] by simp

lemma dict_set_keys: "set (map fst (dict_set k v d)) = insert k (set (map fst d))"
proof (induction d)
  case Nil
  then show ?case by simp
next
  case (Cons a d)
  obtain k' v' where a: "a = (k', v')" by (cases a)
  show ?case
  proof (cases "k' = k")
    case True
    then show ?thesis by (simp add: a)
  next
    case False
    then show ?thesis using Cons.IH by (simp add: a insert_commute)
  qed
qed

lemma dict_set_distinct: "distinct (map fst d) \<Longrightarrow> distinct (map fst (dict_set k v d))"
proof (induction d)
  case Nil
  then show ?case by simp
next
  case (Cons a d)
  obtain k' v' where a: "a = (k', v')" by (cases a)
  from Cons.prems have d: "distinct (map fst d)" and n: "k' \<notin> set (map fst d)"
    by (simp_all add: a)
  show ?case
  proof (cases "k' = k")
    case True
    then show ?thesis using Cons.prems by (simp add: a)
  next
    case False
    have "k' \<notin> set (map fst (dict_set k v d))"
      unfolding dict_set_keys using n False by simp
    then show ?thesis using False Cons.IH [OF d] by (simp add: a)
  qed
qed

lemma dict_set_values: "set (map snd (dict_set k v d)) \<subseteq> insert v (set (map snd d))"
proof (induction d)
  case Nil
  then show ?case by simp
next
  case (Cons a d)
  obtain k' v' where a: "a = (k', v')" by (cases a)
  show ?case
  proof (cases "k' = k")
    case True
    then show ?thesis by (simp add: a subset_insertI2)
  next
    case False
    then show ?thesis using Cons.IH by (simp add: a) blast
  qed
qed

lemma dict_set_map_of: "map_of (dict_set k v d) k' = (if k' = k then Some v else map_of d k')"
  by (induction d) auto

lemma first_values_total:
  "\<forall>vs\<in>set (map snd d). vs \<noteq> [] \<Longrightarrow> first_values d = Inr (map (\<lambda>(k, vs). (k, hd vs)) d)"
proof (induction d)
  case Nil
  then show ?case by simp
next
  case (Cons a d)
  obtain k vs where a: "a = (k, vs)" by (cases a)
  from Cons.prems have ne: "vs \<noteq> []" and rest: "\<forall>vs\<in>set (map snd d). vs \<noteq> []"
    by (simp_all add: a)
  from ne obtain x xs where vs: "vs = x # xs" by (cases vs) simp_all
  show ?case using Cons.IH [OF rest] by (simp add: a vs)
qed

lemma map_of_first: "map_of (map (\<lambda>(k, vs). (k, hd vs)) d) k = map_option hd (map_of d k)"
  by (induction d) auto

lemma map_fst_first: "map fst (map (\<lambda>(k, vs). (k, hd vs)) d) = map fst d"
  by (induction d) auto

lemma parse_field_filter:
  "parse_field W f =
     (if snd (snd (partition_eq f)) \<noteq> []
      then [(unquote_plus W (fst (partition_eq f)), unquote_plus W (snd (snd (partition_eq f))))]
      else [])"
  by (cases f) (simp_all add: parse_field_def partition_eq_def)

lemma concat_parse_field:
  "concat (map (parse_field W) fs) =
     map (\<lambda>f. (unquote_plus W (fst (partition_eq f)), unquote_plus W (snd (snd (partition_eq f)))))
         (filter (\<lambda>f. snd (snd (partition_eq f)) \<noteq> []) fs)"
  by (induction fs) (simp_all add: parse_field_filter)

lemma parse_qsl_fields:
  "parse_qsl W qs =
     map (\<lambda>f. (unquote_plus W (fst (partition_eq f)), unquote_plus W (snd (snd (partition_eq f)))))
         (filter (\<lambda>f. snd (snd (partition_eq f)) \<noteq> []) (split_on CHR ''&'' qs))"
proof (cases "qs = []")
  case True
  then show ?thesis by (simp add: parse_qsl_def partition_eq_def)
next
  case False
  then show ?thesis by (simp only: parse_qsl_def concat_parse_field if_False)
qed

text \<open>
  C10. When \<open>urlparse\<close> raises on the url, so does \<open>with_page_param\<close>; it adds no
  failure of its own. Otherwise it returns the url with a new query, the encoding of a
  list of parameters with distinct names in which \<open>page\<close> has the value \<open>str(page_num)\<close>
  and every other name has the first of its values in the old query. The values of the old
  query are those of its fields, split at \<open>&\<close>, that have a non-empty text after their
  first \<open>=\<close>: a parameter with an empty value, or without \<open>=\<close>, is dropped.
\<close>

theorem with_page_param_query:
  "(case urlparse W url of
      Inl e \<Rightarrow> with_page_param W url page_num = Inl e
    | Inr parsed \<Rightarrow>
        (\<exists>items.
           with_page_param W url page_num
             = Inr (urlunparse W (parsed\<lparr>query := urlencode W items\<rparr>))
           \<and> distinct (map fst items)
           \<and> map_of items ''page'' = Some (str_int page_num)
           \<and> (\<forall>k. k \<noteq> ''page'' \<longrightarrow> map_of items k = map_of (parse_qsl W (query parsed)) k)
           \<and> parse_qsl W (query parsed)
               = map (\<lambda>f. (unquote_plus W (fst (partition_eq f)),
                            unquote_plus W (snd (snd (partition_eq f)))))
                     (filter (\<lambda>f. snd (snd (partition_eq f)) \<noteq> [])
                             (split_on CHR ''&'' (query parsed)))))"
proof (cases "urlparse W url")
  case (Inl e)
  then show ?thesis by (simp add: with_page_param_def)
next
  case (Inr parsed)
  let ?d = "dict_set ''page'' [str_int page_num] (parse_qs W (query parsed))"
  let ?items = "map (\<lambda>(k, vs). (k, hd vs)) ?d"
  note pq = parse_qs_dict [where W = W and qs = "query parsed"]
  from pq have dist: "distinct (map fst (parse_qs W (query parsed)))"
    and ne: "\<forall>vs\<in>set (map snd (parse_qs W (query parsed))). vs \<noteq> []"
    and first: "\<forall>k. map_option hd (map_of (parse_qs W (query parsed)) k)
                    = map_of (parse_qsl W (query parsed)) k"
    by blast+
  have ne': "\<forall>vs\<in>set (map snd ?d). vs \<noteq> []"
  proof
    fix vs
    assume "vs \<in> set (map snd ?d)"
    with dict_set_values [of "''page''" "[str_int page_num]" "parse_qs W (query parsed)"]
    have "vs = [str_int page_num] \<or> vs \<in> set (map snd (parse_qs W (query parsed)))"
      by blast
    with ne show "vs \<noteq> []" by auto
  qed
  have fv: "first_values ?d = Inr ?items"
    using ne' by (rule first_values_total)
  have a: "with_page_param W url page_num
             = Inr (urlunparse W (parsed\<lparr>query := urlencode W ?items\<rparr>))"
    by (simp add: with_page_param_def Inr Let_def fv)
  have b: "distinct (map fst ?items)"
    unfolding map_fst_first using dist by (rule dict_set_distinct)
  have c: "map_of ?items ''page'' = Some (str_int page_num)"
    by (simp add: map_of_first dict_set_map_of)
  have d: "\<forall>k. k \<noteq> ''page'' \<longrightarrow> map_of ?items k = map_of (parse_qsl W (query parsed)) k"
    using first by (simp add: map_of_first dict_set_map_of)
  have e: "parse_qsl W (query parsed)
               = map (\<lambda>f. (unquote_plus W (fst (partition_eq f)),
                            unquote_plus W (snd (snd (partition_eq f)))))
                     (filter (\<lambda>f. snd (snd (partition_eq f)) \<noteq> [])
                             (split_on CHR ''&'' (query parsed)))"
    by (rule parse_qsl_fields)
  have "\<exists>items.
           with_page_param W url page_num
             = Inr (urlunparse W (parsed\<lparr>query := urlencode W items\<rparr>))
           \<and> distinct (map fst items)
           \<and> map_of items ''page'' = Some (str_int page_num)
           \<and> (\<forall>k. k \<noteq> ''page'' \<longrightarrow> map_of items k = map_of (parse_qsl W (query parsed)) k)
           \<and> parse_qsl W (query parsed)
               = map (\<lambda>f. (unquote_plus W (fst (partition_eq f)),
                            unquote_plus W (snd (snd (partition_eq f)))))
                     (filter (\<lambda>f. snd (snd (partition_eq f)) \<noteq> [])
                             (split_on CHR ''&'' (query parsed)))"
    apply (rule exI [of _ ?items])
    apply (intro conjI)
        apply (rule a)
       apply (rule b)
      apply (rule c)
     apply (rule d)
    apply (rule e)
    done
  then show ?thesis by (simp only: Inr sum.case)
qed

theorem with_page_param_query_witness:
  "with_page_param
     (quiet_world
        \<lparr>urlparse := (\<lambda>url. Inr \<lparr>scheme = ''https'', netloc = ''x.com'', path = ''/c'', params = [],
                                   query = ''a=1&b=&a=2&page=7'', fragment = []\<rparr>),
         urlunparse := (\<lambda>p. scheme p @ ''://'' @ netloc p @ path p @ ''?'' @ query p)\<rparr>)
     ''https://x.com/c?a=1&b=&a=2&page=7'' 3
     = Inr ''https://x.com/c?a=1&page=3''
   \<and> (\<exists>items.
        with_page_param
          (quiet_world
             \<lparr>urlparse := (\<lambda>url. Inr \<lparr>scheme = ''https'', netloc = ''x.com'', path = ''/c'', params = [],
                                        query = ''a=1&b=&a=2&page=7'', fragment = []\<rparr>),
              urlunparse := (\<lambda>p. scheme p @ ''://'' @ netloc p @ path p @ ''?'' @ query p)\<rparr>)
          ''https://x.com/c?a=1&b=&a=2&page=7'' 3
          = Inr (''https://x.com/c?'' @ urlencode quiet_world items)
        \<and> map_of items ''page'' = Some ''3''
        \<and> map_of items ''a'' = Some ''1''
        \<and> map_of items ''b'' = None)"
proof -
  let ?p = "\<lparr>scheme = ''https'', netloc = ''x.com'', path = ''/c'', params = [],
             query = ''a=1&b=&a=2&page=7'', fragment = []\<rparr>"
  let ?u = "''https://x.com/c?a=1&b=&a=2&page=7''"
  define W where "W = quiet_world
        \<lparr>urlparse := (\<lambda>url. Inr \<lparr>scheme = ''https'', netloc = ''x.com'', path = ''/c'', params = [],
                                   query = ''a=1&b=&a=2&page=7'', fragment = []\<rparr>),
         urlunparse := (\<lambda>p. scheme p @ ''://'' @ netloc p @ path p @ ''?'' @ query p)\<rparr>"
  have up: "urlparse W ?u = Inr ?p"
    by (simp add: W_def)
  have uu: "urlunparse W p = scheme p @ ''://'' @ netloc p @ path p @ ''?'' @ query p" for p
    by (simp add: W_def)
  have un: "unquote W s = s" and qp: "quote_plus W s = s" for s
    by (simp_all add: W_def quiet_world_def)
  have three: "str_int 3 = ''3''" by code_simp
  have qsl: "parse_qsl W ''a=1&b=&a=2&page=7'' = [(''a'', ''1''), (''a'', ''2''), (''page'', ''7'')]"
    by (simp add: parse_qsl_def parse_field_def partition_eq_def unquote_plus_def un)
  have qs: "parse_qs W ''a=1&b=&a=2&page=7'' = [(''a'', [''1'', ''2'']), (''page'', [''7''])]"
    unfolding parse_qs_def qsl by simp
  have enc: "urlencode W items = urlencode quiet_world items" for items
    by (simp add: urlencode_def W_def)
  have enc3: "urlencode W [(''a'', ''1''), (''page'', ''3'')] = ''a=1&page=3''"
    by (simp add: urlencode_def qp)
  have direct: "with_page_param W ?u 3 = Inr ''https://x.com/c?a=1&page=3''"
    unfolding with_page_param_def up by (simp add: qs three enc3 uu Let_def)
  from with_page_param_query [where W = W and url = ?u and page_num = 3]
  obtain items where
    r: "with_page_param W ?u 3 = Inr (urlunparse W (?p\<lparr>query := urlencode W items\<rparr>))" and
    pg: "map_of items ''page'' = Some (str_int 3)" and
    other: "\<forall>k. k \<noteq> ''page'' \<longrightarrow> map_of items k = map_of (parse_qsl W (query ?p)) k"
    unfolding up by auto
  have r': "with_page_param W ?u 3 = Inr (''https://x.com/c?'' @ urlencode quiet_world items)"
    unfolding r enc uu by simp
  from other have a: "map_of items ''a'' = Some ''1''" and b: "map_of items ''b'' = None"
    by (simp_all add: qsl)
  from pg have pg': "map_of items ''page'' = Some ''3''" by (simp add: three)
  from r' pg' a b have "\<exists>items.
        with_page_param W ?u 3 = Inr (''https://x.com/c?'' @ urlencode quiet_world items)
        \<and> map_of items ''page'' = Some ''3''
        \<and> map_of items ''a'' = Some ''1''
        \<and> map_of items ''b'' = None"
    by blast
  with direct have "with_page_param W ?u 3 = Inr ''https://x.com/c?a=1&page=3''
    \<and> (\<exists>items.
        with_page_param W ?u 3 = Inr (''https://x.com/c?'' @ urlencode quiet_world items)
        \<and> map_of items ''page'' = Some ''3''
        \<and> map_of items ''a'' = Some ''1''
        \<and> map_of items ''b'' = None)"
    by (rule conjI)
  then show ?thesis unfolding W_def .
qed

end
